theory Spec2Isabelle
  imports Complex_Main "HOL-Library.Sublist"
begin

section \<open>Bullseye range: the gameplay simulation of bullseye-range.js\<close>

text \<open>
  A shallow embedding of the simulation core of
  \<^verbatim>\<open>src/examples/bullseye/bullseye-range.js\<close>: the weather system, the moving targets,
  the arrows, the collision resolver and the session that owns them.

  Conventions of the embedding.
  \<^item> A JavaScript number is a \<^typ>\<open>real\<close>: arithmetic is exact, there is no rounding, no
    infinity and no NaN. Counters that only ever hold non-negative integers
    (\<open>current_index\<close>, \<open>shots_taken\<close>, \<open>max_shots\<close>, \<open>streak\<close>, \<open>spawnPerFrame\<close>) are
    \<^typ>\<open>nat\<close>, the score is an \<^typ>\<open>int\<close>.
  \<^item> A method that mutates \<open>this\<close> takes the object and returns the new one.
  \<^item> Reading a property of \<open>undefined\<close> throws a TypeError in JavaScript. A function
    that can throw returns an \<^typ>\<open>'a option\<close>, and \<open>None\<close> is the throw.
  \<^item> \<open>Math.random()\<close> is an explicit source: the sequence of the numbers it is going to
    return. A function that draws from it returns the rest of the sequence.
  \<^item> Drawing, the DOM scoreboard and the meshes are not part of the simulation and are
    left out (\<open>draw\<close>, \<open>trigger_scoreboard_flash\<close>, the field \<open>square\<close>).
\<close>

subsection \<open>Vectors\<close>

text \<open>
  Modelled from the spec: the vector class of the graphics library (\<open>vec3\<close>, \<open>plus\<close>,
  \<open>minus\<close>, \<open>times\<close>, \<open>norm\<close>, \<open>normalized\<close> of \<open>../common.js\<close>) is not part of the
  sources. The spec uses them as the usual component-wise operations on triples
  (\<open>v += a\<cdot>dt\<close>, \<open>pos += v\<cdot>dt\<close>, "the normalized velocity"); \<open>v[0]\<close>, \<open>v[1]\<close>, \<open>v[2]\<close> are
  the components. The three operations are named \<open>plus_v\<close>, \<open>minus_v\<close> and
  \<open>times_v\<close> here, and the field \<open>frac\<close> of a scoring band is \<open>frac_b\<close>.
\<close>

type_synonym vec3 = "real \<times> real \<times> real"

type_synonym rgba = "real \<times> real \<times> real \<times> real"

definition vec3 :: "real \<Rightarrow> real \<Rightarrow> real \<Rightarrow> vec3" where
  "vec3 a b c = (a, b, c)"

fun c0 :: "vec3 \<Rightarrow> real" where
  "c0 (a, b, c) = a"

fun c1 :: "vec3 \<Rightarrow> real" where
  "c1 (a, b, c) = b"

fun c2 :: "vec3 \<Rightarrow> real" where
  "c2 (a, b, c) = c"

fun plus_v :: "vec3 \<Rightarrow> vec3 \<Rightarrow> vec3" where
  "plus_v (a, b, c) (d, e, f) = (a + d, b + e, c + f)"

fun minus_v :: "vec3 \<Rightarrow> vec3 \<Rightarrow> vec3" where
  "minus_v (a, b, c) (d, e, f) = (a - d, b - e, c - f)"

fun times_v :: "vec3 \<Rightarrow> real \<Rightarrow> vec3" where
  "times_v (a, b, c) k = (a * k, b * k, c * k)"

fun norm3 :: "vec3 \<Rightarrow> real" where
  "norm3 (a, b, c) = sqrt (a * a + b * b + c * c)"

definition normalized :: "vec3 \<Rightarrow> vec3" where
  "normalized v = times_v v (1 / norm3 v)"

subsection \<open>Tunable constants\<close>

record game_config =
  maxShots :: nat
  gravity_cfg :: real
  baseArrowSpeed :: real
  aimSensitivity :: real
  maxDrawStrength :: real
  drawChargeRate :: real
  playerHeight :: real
  arrowSpawnForward :: real
  dtClamp :: real

definition GAME_CONFIG :: game_config where
  "GAME_CONFIG = \<lparr> maxShots = 20, gravity_cfg = - 15, baseArrowSpeed = 60,
     aimSensitivity = 4 / 100, maxDrawStrength = 1, drawChargeRate = 12 / 10,
     playerHeight = 2, arrowSpawnForward = 1, dtClamp = 1 / 30 \<rparr>"

record band =
  frac_b :: real
  points :: int

definition TARGET_SCORING :: "band list" where
  "TARGET_SCORING =
     [\<lparr> frac_b = 2 / 10, points = 10 \<rparr>,
      \<lparr> frac_b = 4 / 10, points = 8 \<rparr>,
      \<lparr> frac_b = 6 / 10, points = 6 \<rparr>,
      \<lparr> frac_b = 8 / 10, points = 4 \<rparr>,
      \<lparr> frac_b = 1, points = 2 \<rparr>]"

record particle_template =
  life_range :: "real \<times> real"
  speedX :: "real \<times> real"
  speedY :: "real \<times> real"
  color :: rgba
  scale :: vec3

record preset =
  spawnPerFrame :: nat
  windStrength :: real
  windAngle :: real
  particle :: "particle_template option"

text \<open>The object \<open>WEATHER_PRESETS\<close>, keyed by the preset's name; \<open>particle: null\<close> is \<open>None\<close>.\<close>

definition WEATHER_PRESETS :: "(string \<times> preset) list" where
  "WEATHER_PRESETS =
     [(''clear'', \<lparr> spawnPerFrame = 0, windStrength = 0, windAngle = 0, particle = None \<rparr>),
      (''wind'', \<lparr> spawnPerFrame = 2, windStrength = 6, windAngle = pi * (7 / 10),
         particle = Some \<lparr> life_range = (3, 5), speedX = (15, 20), speedY = (- 2, - 1),
           color = (8 / 10, 8 / 10, 7 / 10, 3 / 10), scale = (1 / 10, 1 / 10, 1 / 10) \<rparr> \<rparr>),
      (''rain'', \<lparr> spawnPerFrame = 10, windStrength = 2, windAngle = pi * (3 / 10),
         particle = Some \<lparr> life_range = (1, 15 / 10), speedX = (- 1, 1), speedY = (- 40, - 30),
           color = (6 / 10, 7 / 10, 9 / 10, 6 / 10), scale = (5 / 100, 6 / 10, 5 / 100) \<rparr> \<rparr>),
      (''snow'', \<lparr> spawnPerFrame = 5, windStrength = 1, windAngle = pi * (85 / 100),
         particle = Some \<lparr> life_range = (5, 7), speedX = (- 1, 1), speedY = (- 6, - 4),
           color = (9 / 10, 9 / 10, 1, 8 / 10), scale = (12 / 100, 12 / 100, 12 / 100) \<rparr> \<rparr>)]"

subsection \<open>The random source\<close>

type_synonym rng = "nat \<Rightarrow> real"

definition randRange :: "real \<Rightarrow> real \<Rightarrow> rng \<Rightarrow> real \<times> rng" where
  "randRange lo hi r = (lo + r 0 * (hi - lo), \<lambda>i. r (Suc i))"

subsection \<open>Weather system\<close>

record particle_rec =
  p_pos :: vec3
  p_vel :: vec3
  life :: real
  age :: real
  p_color :: rgba
  p_scale :: vec3

text \<open>
  The fields of \<open>WeatherSystem\<close>. The array \<open>weather_types\<close> is written once, by the
  constructor, and never assigned again: it is a constant here.
\<close>

record weather_system =
  particles :: "particle_rec list"
  max_particles :: nat
  current_index :: nat

definition weather_types :: "string list" where
  "weather_types = [''clear'', ''wind'', ''rain'', ''snow'']"

definition new_WeatherSystem :: weather_system where
  "new_WeatherSystem = \<lparr> particles = [], max_particles = 400, current_index = 0 \<rparr>"

text \<open>The getter \<open>type\<close>: an array read, \<open>undefined\<close> (\<open>None\<close>) out of range.\<close>

definition type_of :: "weather_system \<Rightarrow> string option" where
  "type_of w =
     (if current_index w < length weather_types then Some (weather_types ! current_index w)
      else None)"

text \<open>The getter \<open>preset\<close>: \<open>WEATHER_PRESETS[undefined]\<close> is \<open>undefined\<close> too.\<close>

definition preset_of :: "weather_system \<Rightarrow> preset option" where
  "preset_of w = (case type_of w of None \<Rightarrow> None | Some n \<Rightarrow> map_of WEATHER_PRESETS n)"

definition cycle_type :: "weather_system \<Rightarrow> weather_system" where
  "cycle_type w =
     (let w1 = w\<lparr> current_index := (current_index w + 1) mod length weather_types \<rparr>
      in if type_of w1 = Some ''clear'' then w1\<lparr> particles := [] \<rparr> else w1)"

text \<open>
  \<open>spawn_particle\<close> draws, in this order, the three coordinates of the position, the two
  speeds and the life span. It returns before any draw when the preset has no particle
  template or the collection is at capacity.
\<close>

definition spawn_particle :: "rng \<Rightarrow> weather_system \<Rightarrow> (rng \<times> weather_system) option" where
  "spawn_particle r w =
     (case preset_of w of
        None \<Rightarrow> None
      | Some pre \<Rightarrow>
          (case particle pre of
             None \<Rightarrow> Some (r, w)
           | Some p \<Rightarrow>
               if length (particles w) \<ge> max_particles w then Some (r, w)
               else
                 let (px, r1) = randRange (- 30) 30 r;
                     (py, r2) = randRange 15 20 r1;
                     (pz, r3) = randRange (- 80) (- 20) r2;
                     base_pos = vec3 px py pz;
                     (sx, r4) = randRange (fst (speedX p)) (snd (speedX p)) r3;
                     (sy, r5) = randRange (fst (speedY p)) (snd (speedY p)) r4;
                     velocity = vec3 sx sy 0;
                     (lf, r6) = randRange (fst (life_range p)) (snd (life_range p)) r5
                 in Some (r6, w\<lparr> particles := particles w @
                      [\<lparr> p_pos = base_pos, p_vel = velocity, life = lf, age = 0,
                         p_color = color p, p_scale = scale p \<rparr>] \<rparr>)))"

text \<open>The loop \<open>for (let i = 0; i < count; i++) this.spawn_particle()\<close>.\<close>

fun spawn_loop :: "nat \<Rightarrow> rng \<Rightarrow> weather_system \<Rightarrow> (rng \<times> weather_system) option" where
  "spawn_loop 0 r w = Some (r, w)"
| "spawn_loop (Suc n) r w =
     (case spawn_particle r w of None \<Rightarrow> None | Some (r', w') \<Rightarrow> spawn_loop n r' w')"

text \<open>
  One round of the ageing loop on one particle: \<open>None\<close> is \<open>continue\<close> (the particle is
  not pushed to \<open>remaining\<close>).
\<close>

definition age_particle :: "real \<Rightarrow> particle_rec \<Rightarrow> particle_rec option" where
  "age_particle dt p =
     (let p1 = p\<lparr> age := age p + dt \<rparr>
      in if age p1 > life p1 then None
         else let p2 = p1\<lparr> p_pos := plus_v (p_pos p1) (times_v (p_vel p1) dt) \<rparr>
              in if c1 (p_pos p2) < - 5 then None else Some p2)"

definition WeatherSystem_update ::
  "real \<Rightarrow> rng \<Rightarrow> weather_system \<Rightarrow> (rng \<times> weather_system) option" where
  "WeatherSystem_update dt r w =
     (case preset_of w of
        None \<Rightarrow> None
      | Some pre \<Rightarrow>
          (case spawn_loop (spawnPerFrame pre) r w of
             None \<Rightarrow> None
           | Some (r', w') \<Rightarrow>
               Some (r', w'\<lparr> particles := List.map_filter (age_particle dt) (particles w') \<rparr>)))"

subsection \<open>Moving target\<close>

record target =
  base_center :: vec3
  radius :: real
  depth :: real
  amp_x :: real
  amp_y :: real
  freq_x :: real
  freq_y :: real
  time :: real

definition new_Target ::
  "vec3 \<Rightarrow> real \<Rightarrow> real \<Rightarrow> real \<Rightarrow> real \<Rightarrow> real \<Rightarrow> real \<Rightarrow> target" where
  "new_Target center rad dep ax ay fx fy =
     \<lparr> base_center = center, radius = rad, depth = dep, amp_x = ax, amp_y = ay,
       freq_x = fx, freq_y = fy, time = 0 \<rparr>"

definition Target_update :: "real \<Rightarrow> target \<Rightarrow> target" where
  "Target_update dt t = t\<lparr> time := time t + dt \<rparr>"

definition get_center :: "target \<Rightarrow> vec3" where
  "get_center t =
     vec3 (c0 (base_center t) + amp_x t * sin (time t * freq_x t))
          (c1 (base_center t) + amp_y t * sin (time t * freq_y t))
          (c2 (base_center t))"

subsection \<open>Arrow projectile\<close>

record arrow =
  pos :: vec3
  prev_pos :: vec3
  vel :: vec3
  alive :: bool
  stuck :: bool

definition new_Arrow :: "vec3 \<Rightarrow> vec3 \<Rightarrow> arrow" where
  "new_Arrow position velocity =
     \<lparr> pos = position, prev_pos = position, vel = velocity, alive = True, stuck = False \<rparr>"

definition Arrow_update :: "real \<Rightarrow> real \<Rightarrow> vec3 \<Rightarrow> arrow \<Rightarrow> arrow" where
  "Arrow_update dt grav wind_accel a =
     (if \<not> alive a \<or> stuck a then a
      else
        let a1 = a\<lparr> prev_pos := pos a \<rparr>;
            accel = vec3 (c0 wind_accel) (grav + c1 wind_accel) (c2 wind_accel);
            a2 = a1\<lparr> vel := plus_v (vel a1) (times_v accel dt) \<rparr>;
            a3 = a2\<lparr> pos := plus_v (pos a2) (times_v (vel a2) dt) \<rparr>
        in if c1 (pos a3) < - 2 then a3\<lparr> alive := False \<rparr> else a3)"

definition get_direction :: "arrow \<Rightarrow> vec3" where
  "get_direction a =
     (if norm3 (vel a) < 1 / 10 ^ 5 then vec3 0 0 (- 1) else normalized (vel a))"

subsection \<open>The session: the simulation state of \<open>Bullseye_Range\<close>\<close>

record session =
  score :: int
  shots_taken :: nat
  max_shots :: nat
  streak :: nat
  aim_yaw :: real
  aim_pitch :: real
  aim_sensitivity :: real
  is_drawing :: bool
  draw_strength :: real
  max_draw_strength :: real
  arrows :: "arrow list"
  gravity :: real
  weather :: weather_system
  target_centers :: "vec3 list"
  targets :: "target list"

definition reset_game :: session where
  "reset_game =
     \<lparr> score = 0, shots_taken = 0, max_shots = maxShots GAME_CONFIG, streak = 0,
       aim_yaw = 0, aim_pitch = 0, aim_sensitivity = aimSensitivity GAME_CONFIG,
       is_drawing = False, draw_strength = 0,
       max_draw_strength = maxDrawStrength GAME_CONFIG,
       arrows = [], gravity = gravity_cfg GAME_CONFIG,
       weather = new_WeatherSystem, target_centers = [],
       targets =
         [new_Target (vec3 (- 5) 4 (- 40)) (25 / 10) (2 / 10) 4 (15 / 10) (12 / 10) (24 / 10),
          new_Target (vec3 6 6 (- 60)) 3 (2 / 10) 8 3 (8 / 10) (4 / 10)] \<rparr>"

text \<open>\<open>this.weather.preset\<close> may be \<open>undefined\<close>; reading its \<open>windStrength\<close> then throws.\<close>

definition get_weather_wind_vector :: "session \<Rightarrow> vec3 option" where
  "get_weather_wind_vector s =
     (case preset_of (weather s) of
        None \<Rightarrow> None
      | Some pre \<Rightarrow>
          let st = windStrength pre; a = windAngle pre
          in Some (vec3 (st * cos a) 0 (st * sin a)))"

definition current_aim_direction :: "session \<Rightarrow> vec3" where
  "current_aim_direction s =
     (let cy = cos (aim_yaw s); sy = sin (aim_yaw s);
          cp = cos (aim_pitch s); sp = sin (aim_pitch s)
      in normalized (vec3 (sy * cp) sp (- cy * cp)))"

definition get_player_origin :: vec3 where
  "get_player_origin = vec3 0 (playerHeight GAME_CONFIG) 0"

definition compute_arrow_speed :: "session \<Rightarrow> real" where
  "compute_arrow_speed s = baseArrowSpeed GAME_CONFIG * (2 / 10 + 8 / 10 * draw_strength s)"

text \<open>The loop over the bands, with the table it walks as its first argument.\<close>

fun band_loop :: "band list \<Rightarrow> real \<Rightarrow> int" where
  "band_loop [] f = 0"
| "band_loop (b # bs) f = (if f \<le> frac_b b then points b else band_loop bs f)"

definition score_for_radius_fraction :: "real \<Rightarrow> int" where
  "score_for_radius_fraction f = band_loop TARGET_SCORING f"

subsection \<open>Gameplay\<close>

definition spawn_arrow :: "session \<Rightarrow> session option" where
  "spawn_arrow s =
     (if shots_taken s \<ge> max_shots s then Some s
      else
        let dir = current_aim_direction s;
            start = plus_v get_player_origin (times_v dir (arrowSpawnForward GAME_CONFIG));
            speed = compute_arrow_speed s
        in case get_weather_wind_vector s of
             None \<Rightarrow> None
           | Some wind \<Rightarrow>
               let velocity = plus_v (times_v dir speed) wind
               in Some (s\<lparr> arrows := arrows s @ [new_Arrow start velocity],
                           shots_taken := shots_taken s + 1 \<rparr>))"

definition update_aim :: "bool \<Rightarrow> real \<Rightarrow> session \<Rightarrow> session" where
  "update_aim is_hold dt s =
     (if \<not> is_hold then s
      else s\<lparr> draw_strength :=
                min (max_draw_strength s)
                    (draw_strength s + drawChargeRate GAME_CONFIG * dt) \<rparr>)"

definition update_targets :: "real \<Rightarrow> session \<Rightarrow> session" where
  "update_targets dt s =
     (let s1 = s\<lparr> targets := map (Target_update dt) (targets s) \<rparr>
      in s1\<lparr> target_centers := map get_center (targets s1) \<rparr>)"

definition update_arrows :: "real \<Rightarrow> session \<Rightarrow> session option" where
  "update_arrows dt s =
     (case get_weather_wind_vector s of
        None \<Rightarrow> None
      | Some wind_vec \<Rightarrow>
          let s1 = s\<lparr> arrows := map (Arrow_update dt (gravity s) wind_vec) (arrows s) \<rparr>
          in Some (s1\<lparr> arrows := filter alive (arrows s1) \<rparr>))"

subsection \<open>Collision resolver\<close>

text \<open>
  The body of the inner loop of \<open>resolve_arrow_target_collisions\<close>, in three parts.

  \<open>crossing_point\<close> is the plane test, from \<open>const z0\<close> to \<open>const hit_pos\<close>: the point where
  the segment from \<open>prev_pos\<close> to \<open>pos\<close> meets the plane of the target, or \<open>None\<close> when one
  of the three \<open>continue\<close> statements is taken.
\<close>

definition crossing_point :: "vec3 \<Rightarrow> arrow \<Rightarrow> vec3 option" where
  "crossing_point center a =
     (let z0 = c2 (prev_pos a); z1 = c2 (pos a); tz = c2 center; dz = z1 - z0
      in if \<bar>dz\<bar> < 1 / 10 ^ 8 then None
         else
           let crossesPlane = ((z0 - tz) * (z1 - tz) \<le> 0)
           in if \<not> crossesPlane then None
              else
                let tHit = (tz - z0) / dz
                in if tHit < 0 \<or> tHit > 1 then None
                   else
                     let segment = minus_v (pos a) (prev_pos a)
                     in Some (plus_v (prev_pos a) (times_v segment tHit)))"

text \<open>The radial distance on the target face, from \<open>const dx\<close> to \<open>const r\<close>.\<close>

definition radial_distance :: "vec3 \<Rightarrow> vec3 \<Rightarrow> real" where
  "radial_distance center hit_pos =
     (let dx = c0 hit_pos - c0 center; dy = c1 hit_pos - c1 center
      in sqrt (dx * dx + dy * dy))"

text \<open>
  The branch \<open>if (r <= target.radius)\<close>. There \<open>0 \<le> r \<le> radius\<close>, so the division
  \<open>r / target.radius\<close> has a zero divisor only as \<open>0 / 0\<close>: that is NaN in JavaScript, every
  comparison of \<open>score_for_radius_fraction\<close> with it is false, and the points are 0.
\<close>

definition stick :: "target \<Rightarrow> real \<Rightarrow> vec3 \<Rightarrow> int \<times> nat \<times> arrow \<Rightarrow> int \<times> nat \<times> arrow" where
  "stick t r hit_pos st =
     (case st of (sc, stk, a) \<Rightarrow>
        let pts = (if radius t = 0 then 0 else score_for_radius_fraction (r / radius t))
        in (sc + pts,
            if pts \<ge> 8 then stk + 1 else 0,
            a\<lparr> stuck := True, vel := vec3 0 0 0, pos := plus_v hit_pos (vec3 0 0 (2 / 10)) \<rparr>))"

text \<open>
  The inner loop \<open>for (let i = 0; i < this.targets.length; i++)\<close> on one arrow, from index
  \<open>i\<close> on: the third argument is what is left of \<open>this.targets\<close> from \<open>i\<close>. The state is the
  score, the streak and the arrow. \<open>this.target_centers[i]\<close> out of range is \<open>undefined\<close>,
  and \<open>center[2]\<close> then throws.
\<close>

fun target_loop ::
  "vec3 list \<Rightarrow> nat \<Rightarrow> target list \<Rightarrow> int \<times> nat \<times> arrow \<Rightarrow> (int \<times> nat \<times> arrow) option" where
  "target_loop cs i [] st = Some st"
| "target_loop cs i (t # ts) st =
     (if i < length cs then
        (case crossing_point (cs ! i) (snd (snd st)) of
           None \<Rightarrow> target_loop cs (Suc i) ts st
         | Some hit_pos \<Rightarrow>
             let r = radial_distance (cs ! i) hit_pos
             in if r \<le> radius t then Some (stick t r hit_pos st)
                else target_loop cs (Suc i) ts st)
      else None)"

text \<open>The outer loop \<open>for (const a of this.arrows)\<close>; the arrows are mutated in place.\<close>

fun arrow_loop ::
  "vec3 list \<Rightarrow> target list \<Rightarrow> arrow list \<Rightarrow> int \<times> nat \<Rightarrow> (int \<times> nat \<times> arrow list) option" where
  "arrow_loop cs ts [] (sc, stk) = Some (sc, stk, [])"
| "arrow_loop cs ts (a # as) (sc, stk) =
     (if \<not> alive a \<or> stuck a then
        (case arrow_loop cs ts as (sc, stk) of
           None \<Rightarrow> None
         | Some (sc', stk', as') \<Rightarrow> Some (sc', stk', a # as'))
      else
        (case target_loop cs 0 ts (sc, stk, a) of
           None \<Rightarrow> None
         | Some (sc1, stk1, a1) \<Rightarrow>
             (case arrow_loop cs ts as (sc1, stk1) of
                None \<Rightarrow> None
              | Some (sc', stk', as') \<Rightarrow> Some (sc', stk', a1 # as'))))"

definition resolve_arrow_target_collisions :: "session \<Rightarrow> session option" where
  "resolve_arrow_target_collisions s =
     (case arrow_loop (target_centers s) (targets s) (arrows s) (score s, streak s) of
        None \<Rightarrow> None
      | Some (sc, stk, as) \<Rightarrow> Some (s\<lparr> score := sc, streak := stk, arrows := as \<rparr>))"

definition update_simulation :: "real \<Rightarrow> rng \<Rightarrow> session \<Rightarrow> (rng \<times> session) option" where
  "update_simulation dt r s =
     (case WeatherSystem_update dt r (weather s) of
        None \<Rightarrow> None
      | Some (r', w') \<Rightarrow>
          let s1 = s\<lparr> weather := w' \<rparr>;
              s2 = update_targets dt s1
          in case update_arrows dt s2 of
               None \<Rightarrow> None
             | Some s3 \<Rightarrow>
                 (case resolve_arrow_target_collisions s3 of
                    None \<Rightarrow> None
                  | Some s4 \<Rightarrow> Some (r', s4)))"

subsection \<open>Controls and the frame\<close>

text \<open>The callbacks that \<open>render_controls\<close> registers, one definition each.\<close>

definition key_Aim_Left :: "session \<Rightarrow> session" where
  "key_Aim_Left s = s\<lparr> aim_yaw := aim_yaw s - aim_sensitivity s \<rparr>"

definition key_Aim_Right :: "session \<Rightarrow> session" where
  "key_Aim_Right s = s\<lparr> aim_yaw := aim_yaw s + aim_sensitivity s \<rparr>"

definition key_Aim_Up :: "session \<Rightarrow> session" where
  "key_Aim_Up s = s\<lparr> aim_pitch := min (aim_pitch s + aim_sensitivity s) (4 / 10) \<rparr>"

definition key_Aim_Down :: "session \<Rightarrow> session" where
  "key_Aim_Down s = s\<lparr> aim_pitch := max (aim_pitch s - aim_sensitivity s) (- (4 / 10)) \<rparr>"

definition key_Draw_press :: "session \<Rightarrow> session" where
  "key_Draw_press s =
     (if \<not> is_drawing s \<and> shots_taken s < max_shots s
      then s\<lparr> is_drawing := True, draw_strength := 0 \<rparr>
      else s)"

definition key_Draw_release :: "session \<Rightarrow> session option" where
  "key_Draw_release s =
     (if is_drawing s then spawn_arrow (s\<lparr> is_drawing := False \<rparr>) else Some s)"

definition key_Cycle_Weather :: "session \<Rightarrow> session" where
  "key_Cycle_Weather s = s\<lparr> weather := cycle_type (weather s) \<rparr>"

text \<open>
  The simulation part of \<open>render_animation\<close>: \<open>animation_delta_time\<close> is the raw elapsed
  time in milliseconds, \<open>animate\<close> the flag of the same name.
\<close>

definition frame_dt :: "real \<Rightarrow> real" where
  "frame_dt animation_delta_time =
     (let dt = animation_delta_time / 1000 in min dt (dtClamp GAME_CONFIG))"

definition render_animation :: "real \<Rightarrow> bool \<Rightarrow> rng \<Rightarrow> session \<Rightarrow> (rng \<times> session) option" where
  "render_animation animation_delta_time animate r s =
     (let dt = frame_dt animation_delta_time
      in if animate then
           update_simulation dt r (if is_drawing s then update_aim True dt s else s)
         else Some (r, s))"

text \<open>What can happen to a session: a key, or a frame.\<close>

datatype event =
    Aim_Left | Aim_Right | Aim_Up | Aim_Down
  | Draw_Press | Draw_Release
  | Cycle_Weather | Reset_Game
  | Frame real bool

fun handle :: "event \<Rightarrow> rng \<times> session \<Rightarrow> (rng \<times> session) option" where
  "handle Aim_Left (r, s) = Some (r, key_Aim_Left s)"
| "handle Aim_Right (r, s) = Some (r, key_Aim_Right s)"
| "handle Aim_Up (r, s) = Some (r, key_Aim_Up s)"
| "handle Aim_Down (r, s) = Some (r, key_Aim_Down s)"
| "handle Draw_Press (r, s) = Some (r, key_Draw_press s)"
| "handle Draw_Release (r, s) = map_option (Pair r) (key_Draw_release s)"
| "handle Cycle_Weather (r, s) = Some (r, key_Cycle_Weather s)"
| "handle Reset_Game (r, s) = Some (r, reset_game)"
| "handle (Frame ms animate) (r, s) = render_animation ms animate r s"

fun run :: "event list \<Rightarrow> rng \<times> session \<Rightarrow> (rng \<times> session) option" where
  "run [] st = Some st"
| "run (e # es) st = (case handle e st of None \<Rightarrow> None | Some st' \<Rightarrow> run es st')"

subsection \<open>Runs of the weather system\<close>

text \<open>
  What can happen to a weather system between its construction and a reset of the game:
  a tick (\<open>update\<close>, with the time step of that frame) or a press of the weather key
  (\<open>cycle_type\<close>).
\<close>

datatype weather_op = Tick real | Cycle

fun weather_step :: "weather_op \<Rightarrow> rng \<times> weather_system \<Rightarrow> (rng \<times> weather_system) option" where
  "weather_step (Tick dt) (r, w) = WeatherSystem_update dt r w"
| "weather_step Cycle (r, w) = Some (r, cycle_type w)"

fun weather_run :: "weather_op list \<Rightarrow> rng \<times> weather_system \<Rightarrow> (rng \<times> weather_system) option" where
  "weather_run [] st = Some st"
| "weather_run (x # xs) st =
     (case weather_step x st of None \<Rightarrow> None | Some st' \<Rightarrow> weather_run xs st')"

text \<open>The particle collection is within its capacity.\<close>

definition capped :: "weather_system \<Rightarrow> bool" where
  "capped w = (length (particles w) \<le> max_particles w)"

subsection \<open>Concrete states\<close>

text \<open>
  The particle that the preset \<open>wind\<close> spawns when every random draw is one half, and two
  weather systems that hold it.
\<close>

definition p0 :: particle_rec where
  "p0 = \<lparr> p_pos = (0, 35 / 2, - 50), p_vel = (35 / 2, - 3 / 2, 0), life = 4, age = 0,
           p_color = (8 / 10, 8 / 10, 7 / 10, 3 / 10), p_scale = (1 / 10, 1 / 10, 1 / 10) \<rparr>"

definition w_snow :: weather_system where
  "w_snow = \<lparr> particles = [p0, p0], max_particles = 400, current_index = 3 \<rparr>"

definition w_wind :: weather_system where
  "w_wind = \<lparr> particles = [p0], max_particles = 400, current_index = 1 \<rparr>"

subsection \<open>Fire requests\<close>

text \<open>\<open>n\<close> calls of \<open>spawn_arrow\<close> in a row.\<close>

fun fires :: "nat \<Rightarrow> session \<Rightarrow> session option" where
  "fires 0 s = Some s"
| "fires (Suc n) s = (case spawn_arrow s of None \<Rightarrow> None | Some s' \<Rightarrow> fires n s')"

text \<open>The arrow that \<open>spawn_arrow\<close> pushes, as a function of the session and the wind.\<close>

definition fired :: "session \<Rightarrow> vec3 \<Rightarrow> arrow" where
  "fired s wind =
     new_Arrow (plus_v get_player_origin
                  (times_v (current_aim_direction s) (arrowSpawnForward GAME_CONFIG)))
               (plus_v (times_v (current_aim_direction s) (compute_arrow_speed s)) wind)"

subsection \<open>The tick as the specification orders it\<close>

text \<open>
  The specification lists five phases: weather update, target update, arrow
  integration, collision resolution, dead-arrow pruning. The source has the third and
  the fifth in one method, \<open>update_arrows\<close>: its first two statements are the integration
  (\<open>integrate_arrows\<close>), its last one the pruning (\<open>prune_dead\<close>).
  \<open>tick_in_spec_order\<close> follows the words of the specification: it prunes last.
\<close>

definition integrate_arrows :: "real \<Rightarrow> session \<Rightarrow> session option" where
  "integrate_arrows dt s =
     (case get_weather_wind_vector s of
        None \<Rightarrow> None
      | Some wind_vec \<Rightarrow>
          Some (s\<lparr> arrows := map (Arrow_update dt (gravity s) wind_vec) (arrows s) \<rparr>))"

definition prune_dead :: "session \<Rightarrow> session" where
  "prune_dead s = s\<lparr> arrows := filter alive (arrows s) \<rparr>"

definition tick_in_spec_order :: "real \<Rightarrow> rng \<Rightarrow> session \<Rightarrow> (rng \<times> session) option" where
  "tick_in_spec_order dt r s =
     (case WeatherSystem_update dt r (weather s) of
        None \<Rightarrow> None
      | Some (r', w') \<Rightarrow>
          (case integrate_arrows dt (update_targets dt (s\<lparr> weather := w' \<rparr>)) of
             None \<Rightarrow> None
           | Some s3 \<Rightarrow>
               (case resolve_arrow_target_collisions s3 of
                  None \<Rightarrow> None
                | Some s4 \<Rightarrow> Some (r', prune_dead s4))))"

subsection \<open>Predicates on arrows and sessions\<close>

text \<open>
  What the collision resolver may do to one arrow: nothing, or turn a flying arrow into
  a stuck one with no velocity.
\<close>

definition hit_rel :: "arrow \<Rightarrow> arrow \<Rightarrow> bool" where
  "hit_rel a a' =
     (a' = a \<or> (alive a \<and> \<not> stuck a \<and> alive a' \<and> stuck a' \<and> vel a' = vec3 0 0 0))"

text \<open>An arrow lodged in a target: stuck, and in the live collection.\<close>

definition lodged :: "arrow \<Rightarrow> bool" where
  "lodged a = (stuck a \<and> alive a)"

definition still :: "arrow \<Rightarrow> bool" where
  "still a = (stuck a \<longrightarrow> vel a = vec3 0 0 0)"

text \<open>The weather index selects one of the four presets.\<close>

definition ready :: "session \<Rightarrow> bool" where
  "ready s = (current_index (weather s) < 4)"

definition sound_arrows :: "session \<Rightarrow> bool" where
  "sound_arrows s = (\<forall>a\<in>set (arrows s). stuck a \<longrightarrow> alive a \<and> vel a = vec3 0 0 0)"

definition within_budget :: "session \<Rightarrow> bool" where
  "within_budget s = (shots_taken s \<le> max_shots s)"

text \<open>A random source whose every draw is one half.\<close>

definition r0 :: rng where
  "r0 = (\<lambda>_. 1 / 2)"

text \<open>
  An arrow flying at a target one unit ahead that does not move (its amplitudes are 0):
  \<open>a_fly\<close> before the tick, \<open>a_moved\<close> after \<open>update\<close> with a step of 1/30 s and no wind,
  \<open>a_hit\<close> after the collision resolver. \<open>s_fly\<close> is the reset session with that target
  and that arrow, \<open>s_hit\<close> the session one tick later, \<open>s_hit2\<close> two ticks later.
\<close>

definition a_fly :: arrow where
  "a_fly = \<lparr> pos = (0, 2, - 9), prev_pos = (0, 2, - 9), vel = (0, 0, - 60),
             alive = True, stuck = False \<rparr>"

definition a_moved :: arrow where
  "a_moved = \<lparr> pos = (0, 119 / 60, - 11), prev_pos = (0, 2, - 9), vel = (0, - (1 / 2), - 60),
             alive = True, stuck = False \<rparr>"

definition a_hit :: arrow where
  "a_hit = \<lparr> pos = (0, 239 / 120, - (49 / 5)), prev_pos = (0, 2, - 9), vel = (0, 0, 0),
             alive = True, stuck = True \<rparr>"

definition t_near :: target where
  "t_near = new_Target (vec3 0 2 (- 10)) 1 (2 / 10) 0 0 1 1"

definition s_fly :: session where
  "s_fly = reset_game\<lparr> targets := [t_near], arrows := [a_fly] \<rparr>"

definition s_hit :: session where
  "s_hit = s_fly\<lparr> targets := [t_near\<lparr> time := 1 / 30 \<rparr>], target_centers := [(0, 2, - 10)],
             arrows := [a_hit], score := 10, streak := 1 \<rparr>"

definition s_hit2 :: session where
  "s_hit2 = s_hit\<lparr> targets := [t_near\<lparr> time := 1 / 15 \<rparr>] \<rparr>"

text \<open>
  After a reset: the draw key pressed and the charge of one frame of 1/30 s (\<open>s_drawn\<close>);
  the arrow that the release then fires (\<open>a_shot\<close>) and the session after the release
  (\<open>s_shot\<close>).
\<close>

definition s_drawn :: session where
  "s_drawn = update_aim True (1 / 30) (key_Draw_press reset_game)"

definition a_shot :: arrow where
  "a_shot = new_Arrow (0, 2, - 1) (0, 0, - (348 / 25))"

definition s_shot :: session where
  "s_shot = reset_game\<lparr> is_drawing := False, draw_strength := 1 / 25, arrows := [a_shot],
              shots_taken := 1 \<rparr>"

text \<open>The budget used up (\<open>s_spent\<close>), and used up with the draw flag set (\<open>s_odd\<close>).\<close>

definition s_spent :: session where
  "s_spent = reset_game\<lparr> shots_taken := 20 \<rparr>"

definition s_odd :: session where
  "s_odd = reset_game\<lparr> shots_taken := 20, is_drawing := True \<rparr>"

subsection \<open>What the resolver awards\<close>

text \<open>
  The outcome of the collision resolver, said without its loops. \<open>hit_of\<close> is the test
  of one target: the crossing point of the arrow lies within the radius. \<open>first_hit\<close> is
  the first target, in array order, that the arrow hits, with the radial distance and
  the crossing point. \<open>points_for\<close> are the points of that distance on that target (the
  expression of \<open>stick\<close>). \<open>award\<close>, \<open>settle\<close> and \<open>streak_step\<close> are what one arrow adds
  to the score, what it becomes and what it does to the streak; an arrow that is not
  alive or is stuck is skipped.
\<close>

definition hit_of :: "vec3 \<Rightarrow> target \<Rightarrow> arrow \<Rightarrow> (real \<times> vec3) option" where
  "hit_of c t a =
     (case crossing_point c a of
        None \<Rightarrow> None
      | Some h \<Rightarrow> if radial_distance c h \<le> radius t then Some (radial_distance c h, h) else None)"

fun first_hit :: "vec3 list \<Rightarrow> target list \<Rightarrow> arrow \<Rightarrow> (target \<times> real \<times> vec3) option" where
  "first_hit (c # cs) (t # ts) a =
     (case hit_of c t a of Some (rr, h) \<Rightarrow> Some (t, rr, h) | None \<Rightarrow> first_hit cs ts a)"
| "first_hit cs ts a = None"

definition points_for :: "target \<Rightarrow> real \<Rightarrow> int" where
  "points_for t rr = (if radius t = 0 then 0 else score_for_radius_fraction (rr / radius t))"

definition award :: "vec3 list \<Rightarrow> target list \<Rightarrow> arrow \<Rightarrow> int" where
  "award cs ts a =
     (if alive a \<and> \<not> stuck a
      then (case first_hit cs ts a of None \<Rightarrow> 0 | Some (t, rr, h) \<Rightarrow> points_for t rr)
      else 0)"

definition settle :: "vec3 list \<Rightarrow> target list \<Rightarrow> arrow \<Rightarrow> arrow" where
  "settle cs ts a =
     (if alive a \<and> \<not> stuck a
      then (case first_hit cs ts a of
              None \<Rightarrow> a
            | Some (t, rr, h) \<Rightarrow>
                a\<lparr> stuck := True, vel := vec3 0 0 0, pos := plus_v h (vec3 0 0 (2 / 10)) \<rparr>)
      else a)"

definition streak_step :: "vec3 list \<Rightarrow> target list \<Rightarrow> arrow \<Rightarrow> nat \<Rightarrow> nat" where
  "streak_step cs ts a stk =
     (if alive a \<and> \<not> stuck a
      then (case first_hit cs ts a of
              None \<Rightarrow> stk
            | Some (t, rr, h) \<Rightarrow> if 8 \<le> points_for t rr then stk + 1 else 0)
      else stk)"


subsection \<open>More concrete states\<close>

text \<open>
  A second target in the plane of \<open>t_near\<close>, five units from where \<open>a_moved\<close> crosses
  that plane. \<open>s_two\<close> is the reset session with \<open>t_far\<close> before \<open>t_near\<close> and the arrow
  \<open>a_fly\<close>; \<open>s_two_mid\<close> is the session that the resolver receives in the tick of
  \<open>s_two\<close>, \<open>s_two_hit\<close> the session after that tick. \<open>s_far_mid\<close> has the far target only.
\<close>

definition t_far :: target where
  "t_far = new_Target (vec3 3 (719 / 120) (- 10)) 1 (2 / 10) 0 0 1 1"

definition s_two :: session where
  "s_two = reset_game\<lparr> targets := [t_far, t_near], arrows := [a_fly] \<rparr>"

definition s_two_mid :: session where
  "s_two_mid = s_two\<lparr> targets := [t_far\<lparr> time := 1 / 30 \<rparr>, t_near\<lparr> time := 1 / 30 \<rparr>],
                 target_centers := [(3, 719 / 120, - 10), (0, 2, - 10)],
                 arrows := [a_moved] \<rparr>"

definition s_two_hit :: session where
  "s_two_hit = s_two_mid\<lparr> score := 10, streak := 1, arrows := [a_hit] \<rparr>"


text \<open>
  An arrow just above the ground that falls below it in a tick of 1/30 s: \<open>a_fall\<close>
  before \<open>update\<close>, \<open>a_dead\<close> after it. \<open>s_fall\<close> is the reset session with the target
  \<open>t_near\<close> and that arrow, \<open>s_fall_out\<close> the session after the tick. \<open>s_windy\<close> is the
  reset session with the target \<open>t_near\<close> and the weather cycled once, to wind.
\<close>

definition a_fall :: arrow where
  "a_fall = \<lparr> pos = (0, - (19 / 10), - 5), prev_pos = (0, - (19 / 10), - 5), vel = (0, - 3, - 60),
              alive = True, stuck = False \<rparr>"

definition a_dead :: arrow where
  "a_dead = \<lparr> pos = (0, - (121 / 60), - 7), prev_pos = (0, - (19 / 10), - 5),
              vel = (0, - (7 / 2), - 60), alive = False, stuck = False \<rparr>"

definition s_fall :: session where
  "s_fall = reset_game\<lparr> targets := [t_near], arrows := [a_fall] \<rparr>"

definition s_fall_out :: session where
  "s_fall_out = s_fall\<lparr> targets := [t_near\<lparr> time := 1 / 30 \<rparr>],
                  target_centers := [(0, 2, - 10)], arrows := [] \<rparr>"

definition s_windy :: session where
  "s_windy = reset_game\<lparr> weather := cycle_type new_WeatherSystem, targets := [t_near] \<rparr>"

section \<open>Properties\<close>

subsection \<open>Weather: presets, cycling and the particle cap\<close>

lemma lt4: "(n::nat) < 4 \<Longrightarrow> n = 0 \<or> n = 1 \<or> n = 2 \<or> n = 3"
  by arith

lemma type_of_cases:
  "type_of w = (if current_index w = 0 then Some ''clear''
     else if current_index w = 1 then Some ''wind''
     else if current_index w = 2 then Some ''rain''
     else if current_index w = 3 then Some ''snow'' else None)"
  using lt4 [of "current_index w"]
  by (auto simp: type_of_def weather_types_def)

lemma preset_of_Some: "current_index w < 4 \<Longrightarrow> \<exists>pre. preset_of w = Some pre"
  using lt4 [of "current_index w"]
  by (auto simp: preset_of_def type_of_cases WEATHER_PRESETS_def)

lemma preset_of_None: "\<not> current_index w < 4 \<Longrightarrow> preset_of w = None"
  by (simp add: preset_of_def type_of_cases)

lemma preset_of_clear:
  "type_of w = Some ''clear'' \<Longrightarrow>
   preset_of w = Some \<lparr> spawnPerFrame = 0, windStrength = 0, windAngle = 0, particle = None \<rparr>"
  by (simp add: preset_of_def WEATHER_PRESETS_def)

lemma cycle_type_index: "current_index (cycle_type w) = (current_index w + 1) mod 4"
  by (simp add: cycle_type_def Let_def weather_types_def)

lemma cycle_type_max: "max_particles (cycle_type w) = max_particles w"
  by (simp add: cycle_type_def Let_def)

lemma cycle_type_particles:
  "particles (cycle_type w) = (if type_of (cycle_type w) = Some ''clear'' then [] else particles w)"
  by (simp add: cycle_type_def Let_def type_of_def)

lemma funpow4: "(f ^^ 4) x = f (f (f (f x)))"
  by (simp add: eval_nat_numeral)

lemma cycle4_index: "current_index ((cycle_type ^^ 4) w) = current_index w mod 4"
  unfolding funpow4 cycle_type_index by presburger

lemma spawn_particle_cases:
  "spawn_particle r w = Some (r', w') \<Longrightarrow>
   (r' = r \<and> w' = w) \<or>
   (length (particles w) < max_particles w \<and> (\<exists>p. w' = w\<lparr> particles := particles w @ [p] \<rparr>))"
  apply (simp add: spawn_particle_def split: option.splits if_splits)
  apply (simp add: randRange_def)
  apply blast
  done

lemma spawn_particle_frame:
  "spawn_particle r w = Some (r', w') \<Longrightarrow>
   max_particles w' = max_particles w \<and> current_index w' = current_index w"
  by (drule spawn_particle_cases) auto

lemma spawn_particle_length:
  "spawn_particle r w = Some (r', w') \<Longrightarrow> length (particles w) \<le> max_particles w \<Longrightarrow>
   length (particles w') \<le> max_particles w"
  by (drule spawn_particle_cases) auto

lemma spawn_particle_total: "current_index w < 4 \<Longrightarrow> \<exists>res. spawn_particle r w = Some res"
  using preset_of_Some [of w]
  by (auto simp: spawn_particle_def randRange_def split: option.splits)

lemma spawn_particle_full:
  "max_particles w \<le> length (particles w) \<Longrightarrow> current_index w < 4 \<Longrightarrow>
   spawn_particle r w = Some (r, w)"
  using preset_of_Some [of w]
  by (auto simp: spawn_particle_def split: option.splits)

lemma spawn_loop_frame:
  "spawn_loop n r w = Some (r', w') \<Longrightarrow>
   max_particles w' = max_particles w \<and> current_index w' = current_index w"
proof (induction n arbitrary: r w)
  case 0
  then show ?case by simp
next
  case (Suc n)
  then show ?case
    by (auto split: option.splits dest!: spawn_particle_frame)
qed

lemma spawn_loop_length:
  "spawn_loop n r w = Some (r', w') \<Longrightarrow> length (particles w) \<le> max_particles w \<Longrightarrow>
   length (particles w') \<le> max_particles w"
proof (induction n arbitrary: r w)
  case 0
  then show ?case by simp
next
  case (Suc n)
  from Suc.prems obtain r1 w1 where
    sp: "spawn_particle r w = Some (r1, w1)" and lp: "spawn_loop n r1 w1 = Some (r', w')"
    by (auto split: option.splits)
  from sp Suc.prems(2) have "length (particles w1) \<le> max_particles w1"
    using spawn_particle_length [OF sp] spawn_particle_frame [OF sp] by simp
  from Suc.IH [OF lp this] show ?case
    using spawn_particle_frame [OF sp] by simp
qed

lemma spawn_loop_total: "current_index w < 4 \<Longrightarrow> \<exists>res. spawn_loop n r w = Some res"
proof (induction n arbitrary: r w)
  case 0
  then show ?case by simp
next
  case (Suc n)
  from spawn_particle_total [OF Suc.prems] obtain r1 w1 where
    sp: "spawn_particle r w = Some (r1, w1)" by fastforce
  with Suc.prems have "current_index w1 < 4"
    using spawn_particle_frame [OF sp] by simp
  from Suc.IH [OF this] show ?case using sp by simp
qed

lemma length_map_filter_le: "length (List.map_filter f xs) \<le> length xs"
  by (simp add: map_filter_def)

lemma update_frame:
  "WeatherSystem_update dt r w = Some (r', w') \<Longrightarrow>
   max_particles w' = max_particles w \<and> current_index w' = current_index w"
  by (auto simp: WeatherSystem_update_def split: option.splits dest!: spawn_loop_frame)

lemma update_SomeD:
  "WeatherSystem_update dt r w = Some (r', w') \<Longrightarrow>
   \<exists>pre w1. preset_of w = Some pre \<and> spawn_loop (spawnPerFrame pre) r w = Some (r', w1) \<and>
     w' = w1\<lparr> particles := List.map_filter (age_particle dt) (particles w1) \<rparr>"
  by (auto simp: WeatherSystem_update_def split: option.splits)

lemma update_length:
  assumes "WeatherSystem_update dt r w = Some (r', w')"
    and "length (particles w) \<le> max_particles w"
  shows "length (particles w') \<le> max_particles w"
proof -
  from update_SomeD [OF assms(1)] obtain pre :: preset and w1 where
    lp: "spawn_loop (spawnPerFrame pre) r w = Some (r', w1)"
    and w': "w' = w1\<lparr> particles := List.map_filter (age_particle dt) (particles w1) \<rparr>"
    by blast
  have "length (particles w') \<le> length (particles w1)"
    by (simp add: w' length_map_filter_le)
  also have "\<dots> \<le> max_particles w"
    by (rule spawn_loop_length [OF lp assms(2)])
  finally show ?thesis .
qed

lemma update_total:
  "current_index w < 4 \<Longrightarrow> \<exists>res. WeatherSystem_update dt r w = Some res"
  using preset_of_Some [of w] spawn_loop_total [of w _ r]
  by (fastforce simp: WeatherSystem_update_def split: option.splits)

lemma cycle_type_capped: "capped w \<Longrightarrow> capped (cycle_type w)"
  by (simp add: capped_def cycle_type_max cycle_type_particles)

lemma weather_step_capped:
  "weather_step x (r, w) = Some (r', w') \<Longrightarrow> capped w \<Longrightarrow>
   capped w' \<and> max_particles w' = max_particles w"
proof (cases x)
  case (Tick dt)
  assume a: "weather_step x (r, w) = Some (r', w')" and c: "capped w"
  from a Tick have u: "WeatherSystem_update dt r w = Some (r', w')" by simp
  from update_length [OF u] update_frame [OF u] c show ?thesis
    by (simp add: capped_def)
next
  case Cycle
  assume a: "weather_step x (r, w) = Some (r', w')" and c: "capped w"
  from a Cycle have "w' = cycle_type w" by simp
  with c show ?thesis by (simp add: cycle_type_capped cycle_type_max)
qed

lemma weather_run_capped:
  "weather_run xs (r, w) = Some (r', w') \<Longrightarrow> capped w \<Longrightarrow>
   capped w' \<and> max_particles w' = max_particles w"
proof (induction xs arbitrary: r w)
  case Nil
  then show ?case by simp
next
  case (Cons x xs)
  from Cons.prems(1) obtain r1 w1 where
    st: "weather_step x (r, w) = Some (r1, w1)" and rn: "weather_run xs (r1, w1) = Some (r', w')"
    by (auto split: option.splits)
  from weather_step_capped [OF st Cons.prems(2)] have c1: "capped w1"
    and m1: "max_particles w1 = max_particles w" by simp_all
  from Cons.IH [OF rn c1] m1 show ?case by simp
qed

lemma weather_step_total:
  "current_index w < 4 \<Longrightarrow> \<exists>r' w'. weather_step x (r, w) = Some (r', w') \<and> current_index w' < 4"
proof (cases x)
  case (Tick dt)
  assume i: "current_index w < 4"
  from update_total [OF i, of dt r] obtain r' w' where
    u: "WeatherSystem_update dt r w = Some (r', w')" by fastforce
  with update_frame [OF u] i Tick show ?thesis by simp
next
  case Cycle
  then show ?thesis by (simp add: cycle_type_index)
qed

lemma weather_run_total:
  "current_index w < 4 \<Longrightarrow> \<exists>r' w'. weather_run xs (r, w) = Some (r', w')"
proof (induction xs arbitrary: r w)
  case Nil
  then show ?case by simp
next
  case (Cons x xs)
  from weather_step_total [OF Cons.prems, of x r] obtain r1 w1 where
    st: "weather_step x (r, w) = Some (r1, w1)" and i1: "current_index w1 < 4" by blast
  from Cons.IH [OF i1, of r1] st show ?case by simp
qed

text \<open>
  Claim C6. Whatever the ticks and the presets cycled through, a weather system that is
  within its capacity stays within it, and so does any number of spawns in a row; from
  the constructor every run returns and ends with at most 400 particles; and a spawn
  attempted at capacity changes nothing (it does not even draw a random number).
\<close>

theorem particle_cap:
  "(capped w \<longrightarrow>
      (\<forall>r' w'. weather_run xs (r, w) = Some (r', w') \<longrightarrow>
         length (particles w') \<le> max_particles w \<and> max_particles w' = max_particles w) \<and>
      (\<forall>r' w'. spawn_loop n r w = Some (r', w') \<longrightarrow> length (particles w') \<le> max_particles w)) \<and>
   (\<exists>r' w'. weather_run xs (r, new_WeatherSystem) = Some (r', w') \<and>
      length (particles w') \<le> 400) \<and>
   (max_particles w \<le> length (particles w) \<longrightarrow> current_index w < 4 \<longrightarrow>
      spawn_particle r w = Some (r, w))"
proof (intro conjI impI allI)
  fix r' w'
  assume c: "capped w" and rn: "weather_run xs (r, w) = Some (r', w')"
  from weather_run_capped [OF rn c]
  show "length (particles w') \<le> max_particles w" by (simp add: capped_def)
  from weather_run_capped [OF rn c]
  show "max_particles w' = max_particles w" by simp
next
  fix r' w'
  assume c: "capped w" and lp: "spawn_loop n r w = Some (r', w')"
  from spawn_loop_length [OF lp] c
  show "length (particles w') \<le> max_particles w" by (simp add: capped_def)
next
  have i: "current_index new_WeatherSystem < 4" and c: "capped new_WeatherSystem"
    and m: "max_particles new_WeatherSystem = 400"
    by (simp_all add: new_WeatherSystem_def capped_def)
  from weather_run_total [OF i, of xs r] obtain r' w' where
    rn: "weather_run xs (r, new_WeatherSystem) = Some (r', w')" by blast
  from weather_run_capped [OF rn c] m have "length (particles w') \<le> 400"
    by (simp add: capped_def)
  with rn show "\<exists>r' w'. weather_run xs (r, new_WeatherSystem) = Some (r', w') \<and>
      length (particles w') \<le> 400" by blast
next
  assume "max_particles w \<le> length (particles w)" and "current_index w < 4"
  then show "spawn_particle r w = Some (r, w)" by (rule spawn_particle_full)
qed

lemma ev0: "cycle_type new_WeatherSystem = \<lparr> particles = [], max_particles = 400, current_index = Suc 0 \<rparr>"
  by (simp add: new_WeatherSystem_def cycle_type_def type_of_def weather_types_def)

lemma ev_pre: "preset_of \<lparr> particles = ps, max_particles = 400, current_index = Suc 0 \<rparr> =
   Some \<lparr> spawnPerFrame = 2, windStrength = 6, windAngle = pi * (7 / 10),
         particle = Some \<lparr> life_range = (3, 5), speedX = (15, 20), speedY = (- 2, - 1),
           color = (8 / 10, 8 / 10, 7 / 10, 3 / 10), scale = (1 / 10, 1 / 10, 1 / 10) \<rparr> \<rparr>"
  by (simp add: preset_of_def type_of_def weather_types_def WEATHER_PRESETS_def)

lemma ev_spawn: "length ps < 400 \<Longrightarrow>
   spawn_particle (\<lambda>_. 1 / 2) \<lparr> particles = ps, max_particles = 400, current_index = Suc 0 \<rparr> =
     Some (\<lambda>_. 1 / 2, \<lparr> particles = ps @
        [\<lparr> p_pos = (0, 35 / 2, - 50), p_vel = (35 / 2, - 3 / 2, 0), life = 4, age = 0,
           p_color = (8 / 10, 8 / 10, 7 / 10, 3 / 10), p_scale = (1 / 10, 1 / 10, 1 / 10) \<rparr>],
        max_particles = 400, current_index = Suc 0 \<rparr>)"
  by (simp add: spawn_particle_def ev_pre randRange_def vec3_def)

text \<open>
  The run "cycle to wind, then one tick" spawns two particles; a full collection of 400
  refuses the spawn.
\<close>

theorem particle_cap_witness:
  "capped new_WeatherSystem \<and>
   map_option (\<lambda>(r, w). length (particles w))
     (weather_run [Cycle, Tick (1 / 60)] (\<lambda>_. 1 / 2, new_WeatherSystem)) = Some 2 \<and>
   (2::nat) \<le> max_particles new_WeatherSystem \<and>
   max_particles \<lparr> particles = replicate 400 p0, max_particles = 400, current_index = 2 \<rparr>
     \<le> length (particles \<lparr> particles = replicate 400 p0, max_particles = 400, current_index = 2 \<rparr>) \<and>
   spawn_particle (\<lambda>_. 1 / 2) \<lparr> particles = replicate 400 p0, max_particles = 400, current_index = 2 \<rparr>
     = Some (\<lambda>_. 1 / 2, \<lparr> particles = replicate 400 p0, max_particles = 400, current_index = 2 \<rparr>)"
proof -
  let ?r = "(\<lambda>_. 1 / 2) :: rng"
  let ?xs = "[Cycle, Tick (1 / 60)]"
  let ?full = "\<lparr> particles = replicate 400 p0, max_particles = 400, current_index = 2 \<rparr>"
  have c: "capped new_WeatherSystem"
    by (simp add: capped_def new_WeatherSystem_def)
  have e: "map_option (\<lambda>(r, w). length (particles w))
     (weather_run ?xs (?r, new_WeatherSystem)) = Some 2"
    by (simp add: ev0 WeatherSystem_update_def ev_pre numeral_2_eq_2 ev_spawn
        map_filter_def age_particle_def)
  then obtain r' w' where rn: "weather_run ?xs (?r, new_WeatherSystem) = Some (r', w')"
    and l: "length (particles w') = 2" by auto
  from particle_cap [of new_WeatherSystem ?xs ?r 0] c rn l
  have b: "(2::nat) \<le> max_particles new_WeatherSystem" by auto
  have f: "max_particles ?full \<le> length (particles ?full)" and i: "current_index ?full < 4"
    by simp_all
  from particle_cap [of ?full "[]" ?r 0] f i
  have "spawn_particle ?r ?full = Some (?r, ?full)" by blast
  with c e b f show ?thesis by blast
qed

text \<open>
  Claim C7. Cycling goes from clear to wind to rain to snow and back to clear, so four
  cycles return to the preset they started from; when the preset arrived at is clear the
  particles are emptied at once and the next update spawns none and returns the system
  as it is; when it is not clear the particles are kept.
\<close>

theorem cycle_type_four_presets:
  "(type_of w = Some ''clear'' \<longrightarrow> type_of (cycle_type w) = Some ''wind'') \<and>
   (type_of w = Some ''wind'' \<longrightarrow> type_of (cycle_type w) = Some ''rain'') \<and>
   (type_of w = Some ''rain'' \<longrightarrow> type_of (cycle_type w) = Some ''snow'') \<and>
   (type_of w = Some ''snow'' \<longrightarrow> type_of (cycle_type w) = Some ''clear'') \<and>
   (current_index w < 4 \<longrightarrow>
      current_index ((cycle_type ^^ 4) w) = current_index w \<and>
      type_of ((cycle_type ^^ 4) w) = type_of w) \<and>
   (type_of (cycle_type w) = Some ''clear'' \<longrightarrow>
      particles (cycle_type w) = [] \<and>
      WeatherSystem_update dt r (cycle_type w) = Some (r, cycle_type w)) \<and>
   (type_of (cycle_type w) \<noteq> Some ''clear'' \<longrightarrow> particles (cycle_type w) = particles w)"
proof -
  have step: "type_of (cycle_type w) =
      (if type_of w = Some ''clear'' then Some ''wind''
       else if type_of w = Some ''wind'' then Some ''rain''
       else if type_of w = Some ''rain'' then Some ''snow''
       else if type_of w = Some ''snow'' then Some ''clear''
       else type_of (cycle_type w))"
    using lt4 [of "current_index w"]
    by (auto simp: type_of_cases [of "cycle_type w"] type_of_cases [of w] cycle_type_index)
  have four: "current_index w < 4 \<Longrightarrow> current_index ((cycle_type ^^ 4) w) = current_index w"
    by (simp add: cycle4_index)
  have four_t: "current_index w < 4 \<Longrightarrow> type_of ((cycle_type ^^ 4) w) = type_of w"
    by (simp add: type_of_def four)
  have upd: "WeatherSystem_update dt r (cycle_type w) = Some (r, cycle_type w)"
    if "type_of (cycle_type w) = Some ''clear''"
    using that cycle_type_particles [of w]
    by (simp add: WeatherSystem_update_def preset_of_clear map_filter_def)
  show ?thesis
    using step four four_t upd cycle_type_particles [of w] by auto
qed

text \<open>The four presets in turn from the constructor, and the arrival at clear from snow.\<close>

theorem cycle_type_four_presets_witness:
  "type_of new_WeatherSystem = Some ''clear'' \<and>
   type_of (cycle_type new_WeatherSystem) = Some ''wind'' \<and>
   type_of (cycle_type (cycle_type new_WeatherSystem)) = Some ''rain'' \<and>
   type_of (cycle_type (cycle_type (cycle_type new_WeatherSystem))) = Some ''snow'' \<and>
   type_of w_snow = Some ''snow'' \<and>
   type_of (cycle_type w_snow) = Some ''clear'' \<and>
   particles (cycle_type w_snow) = [] \<and>
   WeatherSystem_update (1 / 60) (\<lambda>_. 1 / 2) (cycle_type w_snow) = Some (\<lambda>_. 1 / 2, cycle_type w_snow) \<and>
   current_index w_snow < 4 \<and>
   current_index ((cycle_type ^^ 4) w_snow) = 3 \<and>
   type_of (cycle_type w_wind) \<noteq> Some ''clear'' \<and>
   particles (cycle_type w_wind) = [p0]"
proof -
  let ?n = new_WeatherSystem
  have t0: "type_of ?n = Some ''clear''"
    by (simp add: type_of_cases new_WeatherSystem_def)
  from cycle_type_four_presets [of ?n] t0
  have t1: "type_of (cycle_type ?n) = Some ''wind''" by blast
  from cycle_type_four_presets [of "cycle_type ?n"] t1
  have t2: "type_of (cycle_type (cycle_type ?n)) = Some ''rain''" by blast
  from cycle_type_four_presets [of "cycle_type (cycle_type ?n)"] t2
  have t3: "type_of (cycle_type (cycle_type (cycle_type ?n))) = Some ''snow''" by blast
  have s0: "type_of w_snow = Some ''snow''" and s1: "current_index w_snow < 4"
    and s2: "current_index w_snow = 3"
    by (simp_all add: type_of_cases w_snow_def)
  from cycle_type_four_presets [of w_snow] s0
  have s3: "type_of (cycle_type w_snow) = Some ''clear''" by blast
  from cycle_type_four_presets [of w_snow "1 / 60" "\<lambda>_. 1 / 2"] s3
  have s4: "particles (cycle_type w_snow) = []"
    and s5: "WeatherSystem_update (1 / 60) (\<lambda>_. 1 / 2) (cycle_type w_snow) =
      Some (\<lambda>_. 1 / 2, cycle_type w_snow)" by blast+
  from cycle_type_four_presets [of w_snow] s1 s2
  have s6: "current_index ((cycle_type ^^ 4) w_snow) = 3" by simp
  have v0: "type_of (cycle_type w_wind) \<noteq> Some ''clear''"
    by (simp add: type_of_cases cycle_type_index w_wind_def)
  from cycle_type_four_presets [of w_wind] v0
  have v1: "particles (cycle_type w_wind) = [p0]" by (simp add: w_wind_def)
  from t0 t1 t2 t3 s0 s3 s4 s5 s1 s6 v0 v1 show ?thesis by blast
qed

text \<open>
  Claim C10. Cycling changes the preset index and the particle collection and nothing
  else; arriving at wind, rain or snow leaves the particles as they were, and the
  particles change only on arrival at clear.
\<close>

theorem cycle_type_frame:
  "(\<exists>i ps. cycle_type w = w\<lparr> current_index := i, particles := ps \<rparr>) \<and>
   max_particles (cycle_type w) = max_particles w \<and>
   (type_of (cycle_type w) = Some ''wind'' \<or> type_of (cycle_type w) = Some ''rain'' \<or>
    type_of (cycle_type w) = Some ''snow'' \<longrightarrow> particles (cycle_type w) = particles w) \<and>
   (particles (cycle_type w) \<noteq> particles w \<longrightarrow> type_of (cycle_type w) = Some ''clear'')"
proof -
  have 1: "\<exists>i ps. cycle_type w = w\<lparr> current_index := i, particles := ps \<rparr>"
    by (rule exI [of _ "current_index (cycle_type w)"],
        rule exI [of _ "particles (cycle_type w)"])
      (simp add: cycle_type_def Let_def)
  have 2: "type_of (cycle_type w) = Some ''wind'' \<or> type_of (cycle_type w) = Some ''rain'' \<or>
    type_of (cycle_type w) = Some ''snow'' \<longrightarrow> particles (cycle_type w) = particles w"
    by (auto simp: cycle_type_particles)
  have 3: "particles (cycle_type w) \<noteq> particles w \<longrightarrow> type_of (cycle_type w) = Some ''clear''"
    by (simp add: cycle_type_particles)
  from 1 2 3 cycle_type_max [of w] show ?thesis by blast
qed

text \<open>From wind to rain the particle stays; from snow to clear the two particles go.\<close>

theorem cycle_type_frame_witness:
  "type_of (cycle_type w_wind) = Some ''rain'' \<and>
   particles (cycle_type w_wind) = [p0] \<and>
   max_particles (cycle_type w_wind) = 400 \<and>
   particles (cycle_type w_snow) \<noteq> particles w_snow \<and>
   type_of (cycle_type w_snow) = Some ''clear''"
proof -
  have a: "type_of (cycle_type w_wind) = Some ''rain''"
    by (simp add: type_of_cases cycle_type_index w_wind_def)
  have p: "particles w_wind = [p0]" and m: "max_particles w_wind = 400"
    by (simp_all add: w_wind_def)
  from cycle_type_frame [of w_wind] a p
  have b: "particles (cycle_type w_wind) = [p0]" by metis
  from cycle_type_frame [of w_wind] m
  have c: "max_particles (cycle_type w_wind) = 400" by metis
  have d: "particles (cycle_type w_snow) \<noteq> particles w_snow"
    by (simp add: cycle_type_particles type_of_cases cycle_type_index w_snow_def)
  from cycle_type_frame [of w_snow] d
  have e: "type_of (cycle_type w_snow) = Some ''clear''" by blast
  from a b c d e show ?thesis by blast
qed

subsection \<open>Firing\<close>

lemma wind_vector_total:
  "current_index (weather s) < 4 \<Longrightarrow> \<exists>v. get_weather_wind_vector s = Some v"
  using preset_of_Some [of "weather s"]
  by (auto simp: get_weather_wind_vector_def Let_def vec3_def)

lemma wind_vector_weather:
  "weather s' = weather s \<Longrightarrow> get_weather_wind_vector s' = get_weather_wind_vector s"
  by (simp add: get_weather_wind_vector_def)

lemma spawn_arrow_exhausted: "max_shots s \<le> shots_taken s \<Longrightarrow> spawn_arrow s = Some s"
  by (simp add: spawn_arrow_def)

lemma spawn_arrow_fires:
  "shots_taken s < max_shots s \<Longrightarrow> get_weather_wind_vector s = Some wind \<Longrightarrow>
   spawn_arrow s =
     Some (s\<lparr> arrows := arrows s @ [fired s wind], shots_taken := shots_taken s + 1 \<rparr>)"
  by (simp add: spawn_arrow_def fired_def Let_def)

lemma spawn_arrow_throws:
  "shots_taken s < max_shots s \<Longrightarrow> get_weather_wind_vector s = None \<Longrightarrow> spawn_arrow s = None"
  by (simp add: spawn_arrow_def Let_def)

lemma spawn_arrow_cases:
  assumes "spawn_arrow s = Some s'"
  shows "(max_shots s \<le> shots_taken s \<and> s' = s) \<or>
     (shots_taken s < max_shots s \<and>
      (\<exists>a. s' = s\<lparr> arrows := arrows s @ [a], shots_taken := shots_taken s + 1 \<rparr>))"
proof (cases "max_shots s \<le> shots_taken s")
  case True
  with assms show ?thesis by (simp add: spawn_arrow_exhausted)
next
  case False
  then have lt: "shots_taken s < max_shots s" by simp
  show ?thesis
  proof (cases "get_weather_wind_vector s")
    case None
    with assms lt show ?thesis by (simp add: spawn_arrow_throws)
  next
    case (Some wind)
    from spawn_arrow_fires [OF lt Some] assms lt show ?thesis by auto
  qed
qed

lemma spawn_arrow_budget:
  "spawn_arrow s = Some s' \<Longrightarrow> shots_taken s \<le> max_shots s \<Longrightarrow>
   shots_taken s' \<le> max_shots s' \<and> max_shots s' = max_shots s"
  by (drule spawn_arrow_cases) auto

lemma fires_budget:
  "fires n s = Some s' \<Longrightarrow> shots_taken s \<le> max_shots s \<Longrightarrow>
   shots_taken s' \<le> max_shots s' \<and> max_shots s' = max_shots s"
proof (induction n arbitrary: s)
  case 0
  then show ?case by simp
next
  case (Suc n)
  from Suc.prems(1) obtain s1 where
    sp: "spawn_arrow s = Some s1" and f: "fires n s1 = Some s'"
    by (auto split: option.splits)
  from spawn_arrow_budget [OF sp Suc.prems(2)] Suc.IH [OF f] show ?case by simp
qed

lemma fires_count:
  "current_index (weather s) < 4 \<Longrightarrow> shots_taken s \<le> max_shots s \<Longrightarrow>
   \<exists>s'. fires n s = Some s' \<and>
     shots_taken s' = min (shots_taken s + n) (max_shots s) \<and>
     length (arrows s') + shots_taken s = length (arrows s) + shots_taken s' \<and>
     max_shots s' = max_shots s \<and> score s' = score s \<and> streak s' = streak s"
proof (induction n arbitrary: s)
  case 0
  then show ?case by simp
next
  case (Suc n)
  show ?case
  proof (cases "max_shots s \<le> shots_taken s")
    case True
    then have sp: "spawn_arrow s = Some s" by (rule spawn_arrow_exhausted)
    from Suc.IH [OF Suc.prems] obtain s' where
      "fires n s = Some s'" "shots_taken s' = min (shots_taken s + n) (max_shots s)"
      "length (arrows s') + shots_taken s = length (arrows s) + shots_taken s'"
      "max_shots s' = max_shots s" "score s' = score s" "streak s' = streak s" by blast
    with sp True show ?thesis by simp
  next
    case False
    then have lt: "shots_taken s < max_shots s" by simp
    from wind_vector_total [OF Suc.prems(1)] obtain wind where
      w: "get_weather_wind_vector s = Some wind" by blast
    let ?s1 = "s\<lparr> arrows := arrows s @ [fired s wind], shots_taken := shots_taken s + 1 \<rparr>"
    have sp: "spawn_arrow s = Some ?s1" by (rule spawn_arrow_fires [OF lt w])
    have i1: "current_index (weather ?s1) < 4" using Suc.prems(1) by simp
    have b1: "shots_taken ?s1 \<le> max_shots ?s1" using lt by simp
    from Suc.IH [OF i1 b1] obtain s' where
      "fires n ?s1 = Some s'" "shots_taken s' = min (shots_taken ?s1 + n) (max_shots ?s1)"
      "length (arrows s') + shots_taken ?s1 = length (arrows ?s1) + shots_taken s'"
      "max_shots s' = max_shots ?s1" "score s' = score ?s1" "streak s' = streak ?s1" by blast
    with sp show ?thesis by simp
  qed
qed

subsection \<open>The collision loops\<close>

lemma stick_arrow:
  "stick t rr h (sc, stk, a) = (sc', stk', a') \<Longrightarrow>
   a' = a\<lparr> stuck := True, vel := vec3 0 0 0, pos := plus_v h (vec3 0 0 (2 / 10)) \<rparr>"
  by (auto simp: stick_def Let_def)

lemma target_loop_cases:
  "target_loop cs i ts (sc, stk, a) = Some (sc', stk', a') \<Longrightarrow>
   (sc' = sc \<and> stk' = stk \<and> a' = a) \<or>
   (\<exists>h. a' = a\<lparr> stuck := True, vel := vec3 0 0 0, pos := plus_v h (vec3 0 0 (2 / 10)) \<rparr>)"
proof (induction ts arbitrary: i)
  case Nil
  then show ?case by simp
next
  case (Cons t ts)
  show ?case
  proof (cases "i < length cs")
    case False
    with Cons.prems show ?thesis by simp
  next
    case True
    show ?thesis
    proof (cases "crossing_point (cs ! i) a")
      case None
      with Cons.prems True have "target_loop cs (Suc i) ts (sc, stk, a) = Some (sc', stk', a')"
        by simp
      then show ?thesis by (rule Cons.IH)
    next
      case (Some h)
      show ?thesis
      proof (cases "radial_distance (cs ! i) h \<le> radius t")
        case hit: True
        with Cons.prems True Some
        have "stick t (radial_distance (cs ! i) h) h (sc, stk, a) = (sc', stk', a')"
          by (simp add: Let_def)
        from stick_arrow [OF this] show ?thesis by blast
      next
        case miss: False
        with Cons.prems True Some
        have "target_loop cs (Suc i) ts (sc, stk, a) = Some (sc', stk', a')"
          by (simp add: Let_def)
        then show ?thesis by (rule Cons.IH)
      qed
    qed
  qed
qed

lemma target_loop_hit_rel:
  "target_loop cs i ts (sc, stk, a) = Some (sc', stk', a') \<Longrightarrow> alive a \<Longrightarrow> \<not> stuck a \<Longrightarrow>
   hit_rel a a'"
  by (drule target_loop_cases) (auto simp: hit_rel_def)

lemma target_loop_total:
  "i + length ts \<le> length cs \<Longrightarrow> target_loop cs i ts st \<noteq> None"
proof (induction ts arbitrary: i)
  case Nil
  show ?case by simp
next
  case (Cons t ts)
  from Cons.prems have i: "i < length cs" and n: "Suc i + length ts \<le> length cs" by simp_all
  from Cons.IH [OF n] have ih: "target_loop cs (Suc i) ts st \<noteq> None" .
  show ?case
  proof (cases "crossing_point (cs ! i) (snd (snd st))")
    case None
    with i ih show ?thesis by simp
  next
    case (Some h)
    with i ih show ?thesis
      by (cases "radial_distance (cs ! i) h \<le> radius t") (simp_all add: Let_def)
  qed
qed

lemma arrow_loop_Cons_skip:
  "\<not> alive a \<or> stuck a \<Longrightarrow>
   arrow_loop cs ts (a # as) (sc, stk) =
     map_option (\<lambda>(sc', stk', as'). (sc', stk', a # as')) (arrow_loop cs ts as (sc, stk))"
  by (auto split: option.splits)

lemma arrow_loop_Cons_test:
  "alive a \<Longrightarrow> \<not> stuck a \<Longrightarrow>
   arrow_loop cs ts (a # as) (sc, stk) =
     (case target_loop cs 0 ts (sc, stk, a) of
        None \<Rightarrow> None
      | Some (sc1, stk1, a1) \<Rightarrow>
          map_option (\<lambda>(sc', stk', as'). (sc', stk', a1 # as')) (arrow_loop cs ts as (sc1, stk1)))"
  by (auto split: option.splits)

lemma arrow_loop_hit_rel:
  "arrow_loop cs ts as (sc, stk) = Some (sc', stk', as') \<Longrightarrow> list_all2 hit_rel as as'"
proof (induction as arbitrary: sc stk sc' stk' as')
  case Nil
  then show ?case by simp
next
  case (Cons a as)
  show ?case
  proof (cases "\<not> alive a \<or> stuck a")
    case True
    from Cons.prems obtain as1 where
      "arrow_loop cs ts as (sc, stk) = Some (sc', stk', as1)" and "as' = a # as1"
      unfolding arrow_loop_Cons_skip [OF True] by auto
    with Cons.IH show ?thesis by (simp add: hit_rel_def)
  next
    case False
    then have al: "alive a" and ns: "\<not> stuck a" by simp_all
    from Cons.prems obtain sc1 stk1 a1 as1 where
      tl: "target_loop cs 0 ts (sc, stk, a) = Some (sc1, stk1, a1)" and
      rest: "arrow_loop cs ts as (sc1, stk1) = Some (sc', stk', as1)" and as': "as' = a1 # as1"
      unfolding arrow_loop_Cons_test [OF al ns] by (auto split: option.splits)
    from target_loop_hit_rel [OF tl al ns] Cons.IH [OF rest] as' show ?thesis by simp
  qed
qed

lemma arrow_loop_total:
  "length ts \<le> length cs \<Longrightarrow> arrow_loop cs ts as (sc, stk) \<noteq> None"
proof (induction as arbitrary: sc stk)
  case Nil
  then show ?case by simp
next
  case (Cons a as)
  show ?case
  proof (cases "\<not> alive a \<or> stuck a")
    case True
    from Cons.IH [OF Cons.prems, of sc stk] show ?thesis
      unfolding arrow_loop_Cons_skip [OF True] by simp
  next
    case False
    then have al: "alive a" and ns: "\<not> stuck a" by simp_all
    from target_loop_total [of 0 ts cs "(sc, stk, a)"] Cons.prems obtain sc1 stk1 a1 where
      tl: "target_loop cs 0 ts (sc, stk, a) = Some (sc1, stk1, a1)" by auto
    from Cons.IH [OF Cons.prems, of sc1 stk1] tl show ?thesis
      unfolding arrow_loop_Cons_test [OF al ns] by simp
  qed
qed

subsection \<open>The order of the phases\<close>

lemma update_arrows_split: "update_arrows dt s = map_option prune_dead (integrate_arrows dt s)"
  by (simp add: update_arrows_def integrate_arrows_def prune_dead_def Let_def split: option.splits)

lemma target_loop_alive:
  "target_loop cs i ts (sc, stk, a) = Some (sc', stk', a') \<Longrightarrow> alive a' = alive a"
  by (drule target_loop_cases) auto

lemma arrow_loop_filter:
  "arrow_loop cs ts (filter alive as) (sc, stk) =
     map_option (\<lambda>(sc', stk', as'). (sc', stk', filter alive as')) (arrow_loop cs ts as (sc, stk))"
proof (induction as arbitrary: sc stk)
  case Nil
  show ?case by simp
next
  case (Cons a as)
  show ?case
  proof (cases "alive a")
    case False
    then have sk: "\<not> alive a \<or> stuck a" by simp
    show ?thesis
      unfolding arrow_loop_Cons_skip [OF sk] using False Cons.IH [of sc stk]
      by (cases "arrow_loop cs ts as (sc, stk)") auto
  next
    case al: True
    show ?thesis
    proof (cases "stuck a")
      case True
      then have sk: "\<not> alive a \<or> stuck a" by simp
      have "arrow_loop cs ts (filter alive (a # as)) (sc, stk) =
          arrow_loop cs ts (a # filter alive as) (sc, stk)" using al by simp
      also have "\<dots> = map_option (\<lambda>(sc', stk', as'). (sc', stk', a # as'))
          (arrow_loop cs ts (filter alive as) (sc, stk))"
        by (rule arrow_loop_Cons_skip [OF sk])
      finally show ?thesis
        unfolding arrow_loop_Cons_skip [OF sk] Cons.IH [of sc stk] using al
        by (cases "arrow_loop cs ts as (sc, stk)") auto
    next
      case ns: False
      have l: "arrow_loop cs ts (filter alive (a # as)) (sc, stk) =
          arrow_loop cs ts (a # filter alive as) (sc, stk)" using al by simp
      show ?thesis
      proof (cases "target_loop cs 0 ts (sc, stk, a)")
        case None
        then show ?thesis
          unfolding l arrow_loop_Cons_test [OF al ns] by simp
      next
        case (Some res)
        obtain sc1 stk1 a1 where res: "res = (sc1, stk1, a1)" by (cases res)
        from target_loop_alive [of cs 0 ts sc stk a sc1 stk1 a1] Some res al
        have a1: "alive a1" by simp
        show ?thesis
          unfolding l arrow_loop_Cons_test [OF al ns] using Some res a1 Cons.IH [of sc1 stk1]
          by (cases "arrow_loop cs ts as (sc1, stk1)") auto
      qed
    qed
  qed
qed

lemma resolve_prune:
  "resolve_arrow_target_collisions (prune_dead s) =
     map_option prune_dead (resolve_arrow_target_collisions s)"
  using arrow_loop_filter [of "target_centers s" "targets s" "arrows s" "score s" "streak s"]
  by (cases "arrow_loop (target_centers s) (targets s) (arrows s) (score s, streak s)")
     (auto simp: resolve_arrow_target_collisions_def prune_dead_def)

text \<open>
  The resolver skips an arrow that is not alive and never changes the flag, so a tick
  that prunes last returns the same session as the tick of the source.
\<close>

lemma tick_spec_order_eq:
  "update_simulation dt r s = tick_in_spec_order dt r s \<and>
   update_arrows dt s = map_option prune_dead (integrate_arrows dt s)"
proof -
  have "update_simulation dt r s = tick_in_spec_order dt r s"
  proof (cases "WeatherSystem_update dt r (weather s)")
    case None
    then show ?thesis by (simp add: update_simulation_def tick_in_spec_order_def)
  next
    case (Some res)
    obtain r' w' where res: "res = (r', w')" by (cases res)
    let ?s2 = "update_targets dt (s\<lparr> weather := w' \<rparr>)"
    show ?thesis
    proof (cases "integrate_arrows dt ?s2")
      case None
      with Some res show ?thesis
        by (simp add: update_simulation_def tick_in_spec_order_def update_arrows_split)
    next
      case s3: (Some s3)
      with Some res show ?thesis
        by (cases "resolve_arrow_target_collisions s3")
           (simp_all add: update_simulation_def tick_in_spec_order_def update_arrows_split
              resolve_prune)
    qed
  qed
  then show ?thesis by (simp add: update_arrows_split)
qed

subsection \<open>Stuck arrows across a tick\<close>

lemma Arrow_update_stuck: "stuck a \<Longrightarrow> Arrow_update dt grav wind a = a"
  by (simp add: Arrow_update_def)

lemma Arrow_update_stuck_iff: "stuck (Arrow_update dt grav wind a) = stuck a"
  by (simp add: Arrow_update_def Let_def)

lemma Arrow_update_still: "still a \<Longrightarrow> still (Arrow_update dt grav wind a)"
  using Arrow_update_stuck [of a dt grav wind] Arrow_update_stuck_iff [of dt grav wind a]
  by (cases "stuck a") (simp_all add: still_def)

lemma fold_Arrow_update_stuck:
  "stuck a \<Longrightarrow> fold (\<lambda>(dt, grav, wind). Arrow_update dt grav wind) ticks a = a"
  by (induction ticks) (auto simp: Arrow_update_stuck)

lemma subseq_lodged_update:
  "subseq (filter lodged xs) (filter alive (map (Arrow_update dt grav wind) xs))"
proof (induction xs)
  case Nil
  show ?case by simp
next
  case (Cons a xs)
  show ?case
  proof (cases "lodged a")
    case True
    then have "Arrow_update dt grav wind a = a" and "alive a"
      by (simp_all add: lodged_def Arrow_update_stuck)
    with True Cons.IH show ?thesis by simp
  next
    case False
    with Cons.IH show ?thesis by (auto intro: list_emb_Cons)
  qed
qed

lemma hit_rel_subseq: "list_all2 hit_rel xs ys \<Longrightarrow> subseq (filter lodged xs) (filter lodged ys)"
proof (induction rule: list_all2_induct)
  case Nil
  show ?case by simp
next
  case (Cons a xs b ys)
  show ?case
  proof (cases "lodged a")
    case True
    with Cons.hyps(1) have "b = a" by (auto simp: hit_rel_def lodged_def)
    with True Cons.IH show ?thesis by simp
  next
    case False
    with Cons.IH show ?thesis by (auto intro: list_emb_Cons)
  qed
qed

lemma hit_rel_alive: "list_all2 hit_rel xs ys \<Longrightarrow> \<forall>a\<in>set xs. alive a \<Longrightarrow> \<forall>b\<in>set ys. alive b"
  by (induction rule: list_all2_induct) (auto simp: hit_rel_def)

lemma hit_rel_still: "list_all2 hit_rel xs ys \<Longrightarrow> \<forall>a\<in>set xs. still a \<Longrightarrow> \<forall>b\<in>set ys. still b"
  by (induction rule: list_all2_induct) (auto simp: hit_rel_def still_def)

lemma update_arrows_SomeD:
  "update_arrows dt s = Some s' \<Longrightarrow>
   \<exists>wind. get_weather_wind_vector s = Some wind \<and>
     s' = s\<lparr> arrows := filter alive (map (Arrow_update dt (gravity s) wind) (arrows s)) \<rparr>"
  by (auto simp: update_arrows_def Let_def split: option.splits)

lemma resolve_SomeD:
  "resolve_arrow_target_collisions s = Some s' \<Longrightarrow>
   \<exists>sc stk as. arrow_loop (target_centers s) (targets s) (arrows s) (score s, streak s) =
       Some (sc, stk, as) \<and> s' = s\<lparr> score := sc, streak := stk, arrows := as \<rparr>"
  by (auto simp: resolve_arrow_target_collisions_def split: option.splits)

lemma update_simulation_SomeD:
  "update_simulation dt r s = Some (r', s') \<Longrightarrow>
   \<exists>w' s3. WeatherSystem_update dt r (weather s) = Some (r', w') \<and>
     update_arrows dt (update_targets dt (s\<lparr> weather := w' \<rparr>)) = Some s3 \<and>
     resolve_arrow_target_collisions s3 = Some s'"
  by (auto simp: update_simulation_def Let_def split: option.splits)

lemma update_targets_arrows: "arrows (update_targets dt s) = arrows s"
  by (simp add: update_targets_def Let_def)

lemma update_simulation_arrows:
  assumes "update_simulation dt r s = Some (r', s')"
  shows "\<exists>xs. list_all2 hit_rel xs (arrows s') \<and>
     (\<exists>grav wind. xs = filter alive (map (Arrow_update dt grav wind) (arrows s)))"
proof -
  from update_simulation_SomeD [OF assms] obtain w' s3 where
    ua: "update_arrows dt (update_targets dt (s\<lparr> weather := w' \<rparr>)) = Some s3" and
    rs: "resolve_arrow_target_collisions s3 = Some s'" by blast
  from update_arrows_SomeD [OF ua] obtain wind where
    s3: "arrows s3 = filter alive (map (Arrow_update dt
        (gravity (update_targets dt (s\<lparr> weather := w' \<rparr>))) wind) (arrows s))"
    by (auto simp: update_targets_arrows)
  from resolve_SomeD [OF rs] obtain sc stk as where
    al: "arrow_loop (target_centers s3) (targets s3) (arrows s3) (score s3, streak s3) =
       Some (sc, stk, as)" and s': "arrows s' = as" by auto
  from arrow_loop_hit_rel [OF al] s' have "list_all2 hit_rel (arrows s3) (arrows s')" by simp
  with s3 show ?thesis by blast
qed

lemma update_simulation_lodged:
  assumes "update_simulation dt r s = Some (r', s')"
  shows "subseq (filter lodged (arrows s)) (filter lodged (arrows s'))"
proof -
  from update_simulation_arrows [OF assms] obtain xs grav wind where
    h: "list_all2 hit_rel xs (arrows s')" and
    xs: "xs = filter alive (map (Arrow_update dt grav wind) (arrows s))" by blast
  have "subseq (filter lodged (arrows s)) xs" unfolding xs by (rule subseq_lodged_update)
  then have "subseq (filter lodged (filter lodged (arrows s))) (filter lodged xs)"
    by (rule subseq_filter)
  then have "subseq (filter lodged (arrows s)) (filter lodged xs)" by simp
  also have "subseq (filter lodged xs) (filter lodged (arrows s'))"
    by (rule hit_rel_subseq [OF h])
  finally show ?thesis .
qed

lemma update_simulation_alive:
  assumes "update_simulation dt r s = Some (r', s')"
  shows "\<forall>b\<in>set (arrows s'). alive b"
proof -
  from update_simulation_arrows [OF assms] obtain xs grav wind where
    h: "list_all2 hit_rel xs (arrows s')" and
    xs: "xs = filter alive (map (Arrow_update dt grav wind) (arrows s))" by blast
  have "\<forall>a\<in>set xs. alive a" unfolding xs by simp
  with h show ?thesis by (rule hit_rel_alive)
qed

lemma update_simulation_still:
  assumes "update_simulation dt r s = Some (r', s')" and "\<forall>a\<in>set (arrows s). still a"
  shows "\<forall>b\<in>set (arrows s'). still b"
proof -
  from update_simulation_arrows [OF assms(1)] obtain xs grav wind where
    h: "list_all2 hit_rel xs (arrows s')" and
    xs: "xs = filter alive (map (Arrow_update dt grav wind) (arrows s))" by blast
  have "\<forall>a\<in>set xs. still a" unfolding xs using assms(2) by (auto simp: Arrow_update_still)
  with h show ?thesis by (rule hit_rel_still)
qed

subsection \<open>Keys, frames and runs\<close>

lemma update_simulation_frame:
  assumes "update_simulation dt r s = Some (r', s')"
  shows "shots_taken s' = shots_taken s \<and> max_shots s' = max_shots s \<and>
     current_index (weather s') = current_index (weather s) \<and>
     is_drawing s' = is_drawing s \<and> draw_strength s' = draw_strength s"
proof -
  from update_simulation_SomeD [OF assms] obtain w' s3 where
    wu: "WeatherSystem_update dt r (weather s) = Some (r', w')" and
    ua: "update_arrows dt (update_targets dt (s\<lparr> weather := w' \<rparr>)) = Some s3" and
    rs: "resolve_arrow_target_collisions s3 = Some s'" by blast
  from update_frame [OF wu] have i: "current_index w' = current_index (weather s)" by simp
  from update_arrows_SomeD [OF ua] obtain xs where
    s3: "s3 = (update_targets dt (s\<lparr> weather := w' \<rparr>))\<lparr> arrows := xs \<rparr>" by blast
  from resolve_SomeD [OF rs] obtain sc stk as where
    s': "s' = s3\<lparr> score := sc, streak := stk, arrows := as \<rparr>" by blast
  show ?thesis unfolding s' s3 using i by (simp add: update_targets_def Let_def)
qed

lemma update_targets_centers:
  "length (targets (update_targets dt s)) = length (target_centers (update_targets dt s))"
  by (simp add: update_targets_def Let_def)

lemma update_targets_weather: "weather (update_targets dt s) = weather s"
  by (simp add: update_targets_def Let_def)

lemma update_simulation_total:
  assumes "ready s"
  shows "update_simulation dt r s \<noteq> None"
proof -
  from assms have i: "current_index (weather s) < 4" by (simp add: ready_def)
  from update_total [OF i, of dt r] obtain r' w' where
    wu: "WeatherSystem_update dt r (weather s) = Some (r', w')" by fastforce
  let ?s2 = "update_targets dt (s\<lparr> weather := w' \<rparr>)"
  from update_frame [OF wu] i have "current_index (weather ?s2) < 4"
    by (simp add: update_targets_weather)
  from wind_vector_total [OF this] obtain wind where
    w: "get_weather_wind_vector ?s2 = Some wind" by blast
  let ?s3 = "?s2\<lparr> arrows := filter alive (map (Arrow_update dt (gravity ?s2) wind) (arrows ?s2)) \<rparr>"
  from w have ua: "update_arrows dt ?s2 = Some ?s3" by (simp add: update_arrows_def Let_def)
  have "length (targets ?s3) \<le> length (target_centers ?s3)"
    using update_targets_centers [of dt "s\<lparr> weather := w' \<rparr>"] by simp
  from arrow_loop_total [OF this, of "arrows ?s3" "score ?s3" "streak ?s3"]
  have "resolve_arrow_target_collisions ?s3 \<noteq> None"
    by (auto simp: resolve_arrow_target_collisions_def split: option.splits)
  with wu ua show ?thesis by (auto simp: update_simulation_def Let_def)
qed

lemma update_aim_frame:
  "arrows (update_aim h dt s) = arrows s \<and> weather (update_aim h dt s) = weather s \<and>
   shots_taken (update_aim h dt s) = shots_taken s \<and> max_shots (update_aim h dt s) = max_shots s"
  by (simp add: update_aim_def)

lemma render_animation_cases:
  assumes "render_animation ms animate r s = Some (r', s')"
  shows "(r' = r \<and> s' = s) \<or>
     (\<exists>dt s0. update_simulation dt r s0 = Some (r', s') \<and> arrows s0 = arrows s \<and>
        weather s0 = weather s \<and> shots_taken s0 = shots_taken s \<and> max_shots s0 = max_shots s)"
proof (cases animate)
  case False
  with assms show ?thesis by (simp add: render_animation_def Let_def)
next
  case True
  let ?dt = "frame_dt ms"
  let ?s0 = "if is_drawing s then update_aim True ?dt s else s"
  from assms True have "update_simulation ?dt r ?s0 = Some (r', s')"
    by (simp add: render_animation_def Let_def)
  moreover have "arrows ?s0 = arrows s \<and> weather ?s0 = weather s \<and>
      shots_taken ?s0 = shots_taken s \<and> max_shots ?s0 = max_shots s"
    by (simp add: update_aim_frame)
  ultimately show ?thesis by blast
qed

lemma key_Draw_release_cases:
  assumes "key_Draw_release s = Some s'"
  shows "arrows s' = arrows s \<or> (\<exists>a. arrows s' = arrows s @ [a] \<and> \<not> stuck a \<and> alive a)"
proof (cases "is_drawing s")
  case False
  with assms show ?thesis by (simp add: key_Draw_release_def)
next
  case True
  let ?s0 = "s\<lparr> is_drawing := False \<rparr>"
  from assms True have sp: "spawn_arrow ?s0 = Some s'" by (simp add: key_Draw_release_def)
  show ?thesis
  proof (cases "max_shots ?s0 \<le> shots_taken ?s0")
    case True
    from spawn_arrow_exhausted [OF True] sp show ?thesis by auto
  next
    case False
    then have lt: "shots_taken ?s0 < max_shots ?s0" by simp
    show ?thesis
    proof (cases "get_weather_wind_vector ?s0")
      case None
      from spawn_arrow_throws [OF lt None] sp show ?thesis by simp
    next
      case (Some wind)
      from spawn_arrow_fires [OF lt Some] sp
      have "arrows s' = arrows s @ [fired ?s0 wind]" by auto
      then show ?thesis by (auto simp: fired_def new_Arrow_def)
    qed
  qed
qed

lemma keys_arrows:
  "arrows (key_Aim_Left s) = arrows s \<and> arrows (key_Aim_Right s) = arrows s \<and>
   arrows (key_Aim_Up s) = arrows s \<and> arrows (key_Aim_Down s) = arrows s \<and>
   arrows (key_Draw_press s) = arrows s \<and> arrows (key_Cycle_Weather s) = arrows s"
  by (simp add: key_Aim_Left_def key_Aim_Right_def key_Aim_Up_def
      key_Aim_Down_def key_Draw_press_def key_Cycle_Weather_def)

lemma handle_arrows:
  assumes "handle e (r, s) = Some (r', s')"
  shows "(e = Reset_Game \<and> s' = reset_game) \<or> arrows s' = arrows s \<or>
     (\<exists>a. arrows s' = arrows s @ [a] \<and> \<not> stuck a \<and> alive a) \<or>
     (\<exists>dt r0 s0. update_simulation dt r0 s0 = Some (r', s') \<and> arrows s0 = arrows s)"
proof (cases e)
  case Draw_Release
  with assms obtain s1 where "key_Draw_release s = Some s1" and "s' = s1" by auto
  with key_Draw_release_cases [of s s'] show ?thesis by blast
next
  case (Frame ms animate)
  with assms have "render_animation ms animate r s = Some (r', s')" by simp
  from render_animation_cases [OF this] show ?thesis by blast
qed (use assms keys_arrows [of s] in auto)

lemma handle_lodged:
  assumes "handle e (r, s) = Some (r', s')" and "e \<noteq> Reset_Game"
  shows "subseq (filter lodged (arrows s)) (filter lodged (arrows s'))"
proof -
  from handle_arrows [OF assms(1)] assms(2)
  consider "arrows s' = arrows s"
    | a where "arrows s' = arrows s @ [a]"
    | dt r0 s0 where "update_simulation dt r0 s0 = Some (r', s')" "arrows s0 = arrows s"
    by blast
  then show ?thesis
  proof cases
    case 1
    then show ?thesis by simp
  next
    case 2
    then show ?thesis by (auto intro: list_emb_append2 [where zs = "[]", simplified])
  next
    case 3
    from update_simulation_lodged [OF 3(1)] 3(2) show ?thesis by simp
  qed
qed

lemma handle_sound:
  assumes "handle e (r, s) = Some (r', s')" and "sound_arrows s"
  shows "sound_arrows s'"
proof -
  from handle_arrows [OF assms(1)]
  consider "s' = reset_game" | "arrows s' = arrows s"
    | a where "arrows s' = arrows s @ [a]" "\<not> stuck a"
    | dt r0 s0 where "update_simulation dt r0 s0 = Some (r', s')" "arrows s0 = arrows s"
    by blast
  then show ?thesis
  proof cases
    case 1
    then show ?thesis by (simp add: sound_arrows_def reset_game_def)
  next
    case 2
    with assms(2) show ?thesis by (simp add: sound_arrows_def)
  next
    case 3
    with assms(2) show ?thesis by (auto simp: sound_arrows_def)
  next
    case 4
    from assms(2) 4(2) have "\<forall>a\<in>set (arrows s0). still a"
      by (simp add: sound_arrows_def still_def)
    from update_simulation_still [OF 4(1) this] update_simulation_alive [OF 4(1)]
    show ?thesis by (auto simp: sound_arrows_def still_def)
  qed
qed

lemma spawn_arrow_total: "ready s \<Longrightarrow> spawn_arrow s \<noteq> None"
proof -
  assume "ready s"
  then have "current_index (weather s) < 4" by (simp add: ready_def)
  from wind_vector_total [OF this] obtain wind where "get_weather_wind_vector s = Some wind"
    by blast
  then show ?thesis by (simp add: spawn_arrow_def Let_def)
qed

lemma spawn_arrow_weather: "spawn_arrow s = Some s' \<Longrightarrow> weather s' = weather s"
  by (drule spawn_arrow_cases) auto

lemma handle_ready:
  assumes "ready s"
  shows "\<exists>r' s'. handle e (r, s) = Some (r', s') \<and> ready s'"
proof (cases e)
  case Draw_Release
  show ?thesis
  proof (cases "is_drawing s")
    case False
    with Draw_Release assms show ?thesis by (simp add: key_Draw_release_def)
  next
    case True
    let ?s0 = "s\<lparr> is_drawing := False \<rparr>"
    from assms have "ready ?s0" by (simp add: ready_def)
    from spawn_arrow_total [OF this] obtain s' where sp: "spawn_arrow ?s0 = Some s'" by blast
    from spawn_arrow_weather [OF sp] assms have "ready s'" by (simp add: ready_def)
    with sp True Draw_Release show ?thesis by (simp add: key_Draw_release_def)
  qed
next
  case (Frame ms animate)
  show ?thesis
  proof (cases animate)
    case False
    with Frame assms show ?thesis by (simp add: render_animation_def Let_def)
  next
    case True
    let ?dt = "frame_dt ms"
    let ?s0 = "if is_drawing s then update_aim True ?dt s else s"
    from assms have r0: "ready ?s0" by (simp add: ready_def update_aim_frame)
    from update_simulation_total [OF r0, of ?dt r] obtain r' s' where
      us: "update_simulation ?dt r ?s0 = Some (r', s')" by fastforce
    from update_simulation_frame [OF us] r0 have "ready s'" by (simp add: ready_def)
    with us True Frame show ?thesis by (simp add: render_animation_def Let_def)
  qed
next
  case Cycle_Weather
  then show ?thesis by (simp add: key_Cycle_Weather_def ready_def cycle_type_index)
next
  case Reset_Game
  then show ?thesis by (simp add: ready_def reset_game_def new_WeatherSystem_def)
qed (use assms in \<open>simp_all add: ready_def key_Aim_Left_def key_Aim_Right_def key_Aim_Up_def
      key_Aim_Down_def key_Draw_press_def\<close>)

lemma handle_budget:
  assumes "handle e (r, s) = Some (r', s')" and "within_budget s"
  shows "within_budget s' \<and> (max_shots s' = max_shots s \<or> e = Reset_Game)"
proof (cases e)
  case Draw_Release
  show ?thesis
  proof (cases "is_drawing s")
    case False
    with Draw_Release assms show ?thesis by (auto simp: key_Draw_release_def)
  next
    case True
    let ?s0 = "s\<lparr> is_drawing := False \<rparr>"
    from assms(1) True Draw_Release have sp: "spawn_arrow ?s0 = Some s'"
      by (auto simp: key_Draw_release_def)
    from assms(2) have "shots_taken ?s0 \<le> max_shots ?s0" by (simp add: within_budget_def)
    from spawn_arrow_budget [OF sp this] show ?thesis by (simp add: within_budget_def)
  qed
next
  case (Frame ms animate)
  with assms(1) have "render_animation ms animate r s = Some (r', s')" by simp
  from render_animation_cases [OF this] assms(2) show ?thesis
    by (auto simp: within_budget_def dest: update_simulation_frame)
next
  case Reset_Game
  with assms(1) show ?thesis by (auto simp: within_budget_def reset_game_def)
qed (use assms in \<open>auto simp: within_budget_def key_Aim_Left_def key_Aim_Right_def key_Aim_Up_def
      key_Aim_Down_def key_Draw_press_def key_Cycle_Weather_def\<close>)

lemma run_ready: "ready s \<Longrightarrow> \<exists>r' s'. run es (r, s) = Some (r', s') \<and> ready s'"
proof (induction es arbitrary: r s)
  case Nil
  then show ?case by simp
next
  case (Cons e es)
  from handle_ready [OF Cons.prems, of e r] obtain r1 s1 where
    h: "handle e (r, s) = Some (r1, s1)" and r1: "ready s1" by blast
  from Cons.IH [OF r1, of r1] h show ?case by simp
qed

lemma run_ConsD:
  "run (e # es) (r, s) = Some (r', s') \<Longrightarrow>
   \<exists>r1 s1. handle e (r, s) = Some (r1, s1) \<and> run es (r1, s1) = Some (r', s')"
  by (cases "handle e (r, s)") auto

lemma run_budget:
  "run es (r, s) = Some (r', s') \<Longrightarrow> within_budget s \<Longrightarrow> within_budget s'"
proof (induction es arbitrary: r s)
  case Nil
  then show ?case by simp
next
  case (Cons e es)
  from run_ConsD [OF Cons.prems(1)] obtain r1 s1 where
    h: "handle e (r, s) = Some (r1, s1)" and rn: "run es (r1, s1) = Some (r', s')" by blast
  from handle_budget [OF h Cons.prems(2)] have "within_budget s1" by simp
  from Cons.IH [OF rn this] show ?case .
qed

lemma run_max_shots:
  "run es (r, s) = Some (r', s') \<Longrightarrow> within_budget s \<Longrightarrow> max_shots s = 20 \<Longrightarrow> max_shots s' = 20"
proof (induction es arbitrary: r s)
  case Nil
  then show ?case by simp
next
  case (Cons e es)
  from run_ConsD [OF Cons.prems(1)] obtain r1 s1 where
    h: "handle e (r, s) = Some (r1, s1)" and rn: "run es (r1, s1) = Some (r', s')" by blast
  from handle_budget [OF h Cons.prems(2)] have b1: "within_budget s1"
    and m: "max_shots s1 = max_shots s \<or> e = Reset_Game" by simp_all
  have "max_shots s1 = 20"
  proof (cases "e = Reset_Game")
    case True
    with h show ?thesis by (auto simp: reset_game_def GAME_CONFIG_def)
  next
    case False
    with m Cons.prems(3) show ?thesis by simp
  qed
  from Cons.IH [OF rn b1 this] show ?case .
qed

lemma run_sound: "run es (r, s) = Some (r', s') \<Longrightarrow> sound_arrows s \<Longrightarrow> sound_arrows s'"
proof (induction es arbitrary: r s)
  case Nil
  then show ?case by simp
next
  case (Cons e es)
  from run_ConsD [OF Cons.prems(1)] obtain r1 s1 where
    h: "handle e (r, s) = Some (r1, s1)" and rn: "run es (r1, s1) = Some (r', s')" by blast
  from Cons.IH [OF rn handle_sound [OF h Cons.prems(2)]] show ?case .
qed

lemma run_lodged:
  "run es (r, s) = Some (r', s') \<Longrightarrow> Reset_Game \<notin> set es \<Longrightarrow>
   subseq (filter lodged (arrows s)) (filter lodged (arrows s'))"
proof (induction es arbitrary: r s)
  case Nil
  then show ?case by simp
next
  case (Cons e es)
  from run_ConsD [OF Cons.prems(1)] obtain r1 s1 where
    h: "handle e (r, s) = Some (r1, s1)" and rn: "run es (r1, s1) = Some (r', s')" by blast
  from Cons.prems(2) have ne: "e \<noteq> Reset_Game" and nes: "Reset_Game \<notin> set es" by auto
  have "subseq (filter lodged (arrows s)) (filter lodged (arrows s1))"
    by (rule handle_lodged [OF h ne])
  also have "subseq (filter lodged (arrows s1)) (filter lodged (arrows s'))"
    by (rule Cons.IH [OF rn nes])
  finally show ?case .
qed

lemma reset_game_ok: "ready reset_game \<and> within_budget reset_game \<and> sound_arrows reset_game \<and>
   max_shots reset_game = 20 \<and> shots_taken reset_game = 0 \<and> arrows reset_game = [] \<and>
   score reset_game = 0 \<and> streak reset_game = 0"
  by (simp add: ready_def within_budget_def sound_arrows_def reset_game_def
      new_WeatherSystem_def GAME_CONFIG_def)

subsection \<open>Budget and stuck arrows\<close>

text \<open>
  Claim C5. A session within its budget stays within it under any number of fire
  requests and under any sequence of keys and frames; a fire request with the budget
  used up returns the session as it is; from a reset, \<open>n\<close> fire requests take
  \<open>min n 20\<close> shots and leave as many arrows, and every run returns with at most 20 shots
  of 20.
\<close>

theorem shots_budget:
  "(within_budget s \<longrightarrow>
      (\<forall>s1. fires n s = Some s1 \<longrightarrow> shots_taken s1 \<le> max_shots s1 \<and> max_shots s1 = max_shots s) \<and>
      (\<forall>r1 s1. run es (r, s) = Some (r1, s1) \<longrightarrow> shots_taken s1 \<le> max_shots s1)) \<and>
   (max_shots s \<le> shots_taken s \<longrightarrow> spawn_arrow s = Some s) \<and>
   (\<exists>s1. fires n reset_game = Some s1 \<and> shots_taken s1 = min n 20 \<and>
      length (arrows s1) = min n 20 \<and> max_shots s1 = 20 \<and> score s1 = 0 \<and> streak s1 = 0) \<and>
   (\<exists>r1 s1. run es (r, reset_game) = Some (r1, s1) \<and> shots_taken s1 \<le> 20 \<and> max_shots s1 = 20)"
proof (intro conjI impI allI)
  fix s1
  assume b: "within_budget s" and f: "fires n s = Some s1"
  from fires_budget [OF f] b show "shots_taken s1 \<le> max_shots s1" and "max_shots s1 = max_shots s"
    by (simp_all add: within_budget_def)
next
  fix r1 s1
  assume b: "within_budget s" and rn: "run es (r, s) = Some (r1, s1)"
  from run_budget [OF rn b] show "shots_taken s1 \<le> max_shots s1" by (simp add: within_budget_def)
next
  assume "max_shots s \<le> shots_taken s"
  then show "spawn_arrow s = Some s" by (rule spawn_arrow_exhausted)
next
  from reset_game_ok have "current_index (weather reset_game) < 4"
    and "shots_taken reset_game \<le> max_shots reset_game"
    by (simp_all add: ready_def within_budget_def)
  from fires_count [OF this, of n] reset_game_ok
  show "\<exists>s1. fires n reset_game = Some s1 \<and> shots_taken s1 = min n 20 \<and>
      length (arrows s1) = min n 20 \<and> max_shots s1 = 20 \<and> score s1 = 0 \<and> streak s1 = 0"
    by auto
next
  from reset_game_ok have rd: "ready reset_game" and b: "within_budget reset_game"
    and m: "max_shots reset_game = 20" by simp_all
  from run_ready [OF rd, of es r] obtain r1 s1 where
    rn: "run es (r, reset_game) = Some (r1, s1)" by blast
  from run_budget [OF rn b] run_max_shots [OF rn b m]
  have "shots_taken s1 \<le> 20 \<and> max_shots s1 = 20" by (simp add: within_budget_def)
  with rn show "\<exists>r1 s1. run es (r, reset_game) = Some (r1, s1) \<and> shots_taken s1 \<le> 20 \<and>
      max_shots s1 = 20" by blast
qed

text \<open>
  Claim C8. Between two resets the lodged arrows (stuck and alive) stay in the
  collection, unchanged and in order, whatever the keys and frames; the pruning of
  \<open>update_arrows\<close> keeps each of them; after a tick every arrow of the collection is
  alive; and in every session reached from one whose stuck arrows are alive and at rest,
  as a reset session is, a stuck arrow is alive. A run returns whenever the weather
  index selects a preset, as it does after a reset.
\<close>

theorem stuck_arrows_stay:
  "(Reset_Game \<notin> set es \<longrightarrow>
      (\<forall>r1 s1. run es (r, s) = Some (r1, s1) \<longrightarrow>
         subseq (filter lodged (arrows s)) (filter lodged (arrows s1)))) \<and>
   (\<forall>s1. update_arrows dt s = Some s1 \<longrightarrow> subseq (filter lodged (arrows s)) (arrows s1)) \<and>
   (\<forall>r1 s1. update_simulation dt r s = Some (r1, s1) \<longrightarrow> (\<forall>b\<in>set (arrows s1). alive b)) \<and>
   (sound_arrows s \<longrightarrow>
      (\<forall>r1 s1. run es (r, s) = Some (r1, s1) \<longrightarrow> (\<forall>b\<in>set (arrows s1). stuck b \<longrightarrow> alive b))) \<and>
   (ready s \<longrightarrow> run es (r, s) \<noteq> None) \<and>
   ready reset_game \<and> sound_arrows reset_game"
proof (intro conjI impI allI)
  fix r1 s1
  assume "Reset_Game \<notin> set es" and "run es (r, s) = Some (r1, s1)"
  then show "subseq (filter lodged (arrows s)) (filter lodged (arrows s1))"
    by (simp add: run_lodged)
next
  fix s1
  assume "update_arrows dt s = Some s1"
  from update_arrows_SomeD [OF this] show "subseq (filter lodged (arrows s)) (arrows s1)"
    by (auto simp: subseq_lodged_update)
next
  fix r1 s1
  assume "update_simulation dt r s = Some (r1, s1)"
  then show "\<forall>b\<in>set (arrows s1). alive b" by (rule update_simulation_alive)
next
  fix r1 s1
  assume sa: "sound_arrows s" and rn: "run es (r, s) = Some (r1, s1)"
  from run_sound [OF rn sa] show "\<forall>b\<in>set (arrows s1). stuck b \<longrightarrow> alive b"
    by (simp add: sound_arrows_def)
next
  assume "ready s"
  from run_ready [OF this, of es r] show "run es (r, s) \<noteq> None" by auto
next
  from reset_game_ok show "ready reset_game" and "sound_arrows reset_game" by simp_all
qed

text \<open>
  Claim C4. A stuck arrow is left as it is by \<open>update\<close>, for any time step, gravity and
  wind, by any sequence of such updates, and by the collision resolver; an arrow that
  the resolver makes stuck has the zero velocity; a tick keeps every lodged arrow, with
  the position and velocity it had; and in every session reached from one whose stuck
  arrows are alive and at rest, as a reset session is, the stuck arrows have the zero
  velocity.
\<close>

theorem stuck_arrow_frozen:
  "(stuck a \<longrightarrow>
      Arrow_update dt grav wind a = a \<and>
      fold (\<lambda>(dt, grav, wind). Arrow_update dt grav wind) ticks a = a \<and>
      arrow_loop cs ts [a] (sc, stk) = Some (sc, stk, [a])) \<and>
   (\<not> stuck a \<longrightarrow>
      (\<forall>sc1 stk1 a1. target_loop cs i ts (sc, stk, a) = Some (sc1, stk1, a1) \<longrightarrow> stuck a1 \<longrightarrow>
         vel a1 = vec3 0 0 0)) \<and>
   (\<forall>r1 s1. update_simulation dt r s = Some (r1, s1) \<longrightarrow>
      (\<forall>b\<in>set (arrows s). lodged b \<longrightarrow> b \<in> set (arrows s1))) \<and>
   (sound_arrows s \<longrightarrow>
      (\<forall>r1 s1. run es (r, s) = Some (r1, s1) \<longrightarrow>
         (\<forall>b\<in>set (arrows s1). stuck b \<longrightarrow> vel b = vec3 0 0 0))) \<and>
   sound_arrows reset_game"
proof (intro conjI impI allI ballI)
  assume "stuck a"
  then show "Arrow_update dt grav wind a = a"
    and "fold (\<lambda>(dt, grav, wind). Arrow_update dt grav wind) ticks a = a"
    and "arrow_loop cs ts [a] (sc, stk) = Some (sc, stk, [a])"
    by (simp_all add: Arrow_update_stuck fold_Arrow_update_stuck)
next
  fix sc1 stk1 a1
  assume "\<not> stuck a" and "target_loop cs i ts (sc, stk, a) = Some (sc1, stk1, a1)" and "stuck a1"
  with target_loop_cases [of cs i ts sc stk a sc1 stk1 a1] show "vel a1 = vec3 0 0 0" by auto
next
  fix r1 s1 b
  assume us: "update_simulation dt r s = Some (r1, s1)" and b: "b \<in> set (arrows s)" "lodged b"
  from b have "b \<in> set (filter lodged (arrows s))" by simp
  with update_simulation_lodged [OF us] have "b \<in> set (filter lodged (arrows s1))"
    by (auto dest: list_emb_set)
  then show "b \<in> set (arrows s1)" by simp
next
  fix r1 s1 b
  assume sa: "sound_arrows s" and rn: "run es (r, s) = Some (r1, s1)"
    and b: "b \<in> set (arrows s1)" "stuck b"
  from run_sound [OF rn sa] b show "vel b = vec3 0 0 0" by (simp add: sound_arrows_def)
next
  from reset_game_ok show "sound_arrows reset_game" by simp
qed

subsection \<open>Scoring, the frame clamp and the draw key\<close>

lemma band_values:
  "score_for_radius_fraction f =
     (if f \<le> 2 / 10 then 10 else if f \<le> 4 / 10 then 8 else if f \<le> 6 / 10 then 6
      else if f \<le> 8 / 10 then 4 else if f \<le> 1 then 2 else 0)"
  by (simp add: score_for_radius_fraction_def TARGET_SCORING_def)

lemma target_loop_hit:
  "i < length cs \<Longrightarrow> crossing_point (cs ! i) a = Some h \<Longrightarrow>
   radial_distance (cs ! i) h \<le> radius t \<Longrightarrow>
   target_loop cs i (t # ts) (sc, stk, a) =
     Some (stick t (radial_distance (cs ! i) h) h (sc, stk, a))"
  by (simp add: Let_def)

lemma target_loop_miss:
  "i < length cs \<Longrightarrow> crossing_point (cs ! i) a = Some h \<Longrightarrow>
   radius t < radial_distance (cs ! i) h \<Longrightarrow>
   target_loop cs i (t # ts) (sc, stk, a) = target_loop cs (Suc i) ts (sc, stk, a)"
  by (simp add: Let_def)

text \<open>One round of the inner loop: a crossing within the radius, and one beyond it.\<close>

lemma target_loop_scoring:
  "score_for_radius_fraction f =
     (if f \<le> 2 / 10 then 10 else if f \<le> 4 / 10 then 8 else if f \<le> 6 / 10 then 6
      else if f \<le> 8 / 10 then 4 else if f \<le> 1 then 2 else 0) \<and>
   (i < length cs \<longrightarrow> crossing_point (cs ! i) a = Some h \<longrightarrow>
      (radial_distance (cs ! i) h \<le> radius t \<longrightarrow> 0 < radius t \<longrightarrow>
         target_loop cs i (t # ts) (sc, stk, a) =
           Some (sc + score_for_radius_fraction (radial_distance (cs ! i) h / radius t),
                 (if 8 \<le> score_for_radius_fraction (radial_distance (cs ! i) h / radius t)
                  then stk + 1 else 0),
                 a\<lparr> stuck := True, vel := vec3 0 0 0, pos := plus_v h (vec3 0 0 (2 / 10)) \<rparr>) \<and>
         score_for_radius_fraction (radial_distance (cs ! i) h / radius t) \<in> {2, 4, 6, 8, 10}) \<and>
      (radius t < radial_distance (cs ! i) h \<longrightarrow>
         target_loop cs i (t # ts) (sc, stk, a) = target_loop cs (Suc i) ts (sc, stk, a) \<and>
         target_loop cs i [t] (sc, stk, a) = Some (sc, stk, a)))"
proof (intro conjI impI)
  show "score_for_radius_fraction f =
     (if f \<le> 2 / 10 then 10 else if f \<le> 4 / 10 then 8 else if f \<le> 6 / 10 then 6
      else if f \<le> 8 / 10 then 4 else if f \<le> 1 then 2 else 0)"
    by (rule band_values)
next
  assume i: "i < length cs" and c: "crossing_point (cs ! i) a = Some h"
    and hit: "radial_distance (cs ! i) h \<le> radius t" and pos: "0 < radius t"
  from target_loop_hit [OF i c hit] pos
  show "target_loop cs i (t # ts) (sc, stk, a) =
           Some (sc + score_for_radius_fraction (radial_distance (cs ! i) h / radius t),
                 (if 8 \<le> score_for_radius_fraction (radial_distance (cs ! i) h / radius t)
                  then stk + 1 else 0),
                 a\<lparr> stuck := True, vel := vec3 0 0 0, pos := plus_v h (vec3 0 0 (2 / 10)) \<rparr>)"
    by (simp add: stick_def Let_def)
  from hit pos have "radial_distance (cs ! i) h / radius t \<le> 1" by simp
  then show "score_for_radius_fraction (radial_distance (cs ! i) h / radius t) \<in> {2, 4, 6, 8, 10}"
    by (simp add: band_values)
next
  assume i: "i < length cs" and c: "crossing_point (cs ! i) a = Some h"
    and miss: "radius t < radial_distance (cs ! i) h"
  from target_loop_miss [OF i c miss]
  show "target_loop cs i (t # ts) (sc, stk, a) = target_loop cs (Suc i) ts (sc, stk, a)"
    and "target_loop cs i [t] (sc, stk, a) = Some (sc, stk, a)"
    by simp_all
qed

text \<open>
  Claim C9. The time step of a frame is the minimum of the raw elapsed time (in
  seconds) and 1/30; a raw time that is not above 1/30 s, in particular zero or
  negative, goes through unchanged; and that step is the one handed to the simulation.
\<close>

theorem frame_dt_clamp:
  "frame_dt ms = min (ms / 1000) (1 / 30) \<and>
   (ms / 1000 \<le> 1 / 30 \<longrightarrow> frame_dt ms = ms / 1000) \<and>
   (ms \<le> 0 \<longrightarrow> frame_dt ms = ms / 1000) \<and>
   render_animation ms True r s =
     update_simulation (min (ms / 1000) (1 / 30)) r
       (if is_drawing s then update_aim True (min (ms / 1000) (1 / 30)) s else s)"
proof -
  have 1: "frame_dt ms = min (ms / 1000) (1 / 30)"
    by (simp add: frame_dt_def GAME_CONFIG_def Let_def)
  have 2: "ms / 1000 \<le> 1 / 30 \<longrightarrow> frame_dt ms = ms / 1000"
    unfolding 1 by (simp add: min_def)
  have 3: "ms \<le> 0 \<longrightarrow> frame_dt ms = ms / 1000"
    unfolding 1 by (simp add: min_def)
  have 4: "render_animation ms True r s =
     update_simulation (min (ms / 1000) (1 / 30)) r
       (if is_drawing s then update_aim True (min (ms / 1000) (1 / 30)) s else s)"
    by (simp add: render_animation_def 1 Let_def)
  from 1 2 3 4 show ?thesis by blast
qed

text \<open>Half a second backwards, no time, 10 ms and 100 ms.\<close>

theorem frame_dt_clamp_witness:
  "(- 500 :: real) \<le> 0 \<and> frame_dt (- 500) = - (1 / 2) \<and> frame_dt 0 = 0 \<and>
   (10 :: real) / 1000 \<le> 1 / 30 \<and> frame_dt 10 = 1 / 100 \<and> frame_dt 100 = 1 / 30"
  using frame_dt_clamp [of "- 500"] frame_dt_clamp [of 0] frame_dt_clamp [of 10]
    frame_dt_clamp [of 100]
  by simp

text \<open>
  Claim C2, as amended. A release while drawing stops the draw and fires exactly one
  arrow when shots remain (none when the budget is used up); a release while not
  drawing does nothing. The release leaves \<open>draw_strength\<close> as it is: the charge is set
  to 0 by the next press that starts a draw.
\<close>

theorem release_fires_one:
  "(is_drawing s \<longrightarrow> shots_taken s < max_shots s \<longrightarrow> ready s \<longrightarrow>
      (\<exists>a. key_Draw_release s =
         Some (s\<lparr> is_drawing := False, arrows := arrows s @ [a],
                  shots_taken := shots_taken s + 1 \<rparr>))) \<and>
   (is_drawing s \<longrightarrow> max_shots s \<le> shots_taken s \<longrightarrow>
      key_Draw_release s = Some (s\<lparr> is_drawing := False \<rparr>)) \<and>
   (\<not> is_drawing s \<longrightarrow> key_Draw_release s = Some s) \<and>
   (\<forall>s1. key_Draw_release s = Some s1 \<longrightarrow>
      draw_strength s1 = draw_strength s \<and> \<not> is_drawing s1) \<and>
   (\<not> is_drawing s \<longrightarrow> shots_taken s < max_shots s \<longrightarrow>
      key_Draw_press s = s\<lparr> is_drawing := True, draw_strength := 0 \<rparr>)"
proof (intro conjI impI allI)
  assume d: "is_drawing s" and lt: "shots_taken s < max_shots s" and rd: "ready s"
  let ?s0 = "s\<lparr> is_drawing := False \<rparr>"
  from rd have "current_index (weather ?s0) < 4" by (simp add: ready_def)
  from wind_vector_total [OF this] obtain wind where
    w: "get_weather_wind_vector ?s0 = Some wind" by blast
  from lt have "shots_taken ?s0 < max_shots ?s0" by simp
  from spawn_arrow_fires [OF this w] d
  have "key_Draw_release s =
         Some (s\<lparr> is_drawing := False, arrows := arrows s @ [fired ?s0 wind],
                  shots_taken := shots_taken s + 1 \<rparr>)"
    by (simp add: key_Draw_release_def)
  then show "\<exists>a. key_Draw_release s =
         Some (s\<lparr> is_drawing := False, arrows := arrows s @ [a],
                  shots_taken := shots_taken s + 1 \<rparr>)" by blast
next
  assume "is_drawing s" and "max_shots s \<le> shots_taken s"
  then show "key_Draw_release s = Some (s\<lparr> is_drawing := False \<rparr>)"
    by (simp add: key_Draw_release_def spawn_arrow_def)
next
  assume "\<not> is_drawing s"
  then show "key_Draw_release s = Some s" by (simp add: key_Draw_release_def)
next
  fix s1
  assume r: "key_Draw_release s = Some s1"
  show "draw_strength s1 = draw_strength s"
  proof (cases "is_drawing s")
    case False
    with r show ?thesis by (simp add: key_Draw_release_def)
  next
    case True
    with r have "spawn_arrow (s\<lparr> is_drawing := False \<rparr>) = Some s1"
      by (simp add: key_Draw_release_def)
    from spawn_arrow_cases [OF this] show ?thesis by auto
  qed
  show "\<not> is_drawing s1"
  proof (cases "is_drawing s")
    case False
    with r show ?thesis by (simp add: key_Draw_release_def)
  next
    case True
    with r have "spawn_arrow (s\<lparr> is_drawing := False \<rparr>) = Some s1"
      by (simp add: key_Draw_release_def)
    from spawn_arrow_cases [OF this] show ?thesis by auto
  qed
next
  assume "\<not> is_drawing s" and "shots_taken s < max_shots s"
  then show "key_Draw_press s = s\<lparr> is_drawing := True, draw_strength := 0 \<rparr>"
    by (simp add: key_Draw_press_def)
qed

subsection \<open>A tick that lodges an arrow, evaluated\<close>

lemma sqrt_sq: "sqrt (x * x) = \<bar>x\<bar>"
  by (simp add: real_sqrt_mult_self)

lemma upd_fly: "Arrow_update (1 / 30) (- 15) (0, 0, 0) a_fly = a_moved"
  by (simp add: Arrow_update_def a_fly_def a_moved_def vec3_def Let_def)

lemma cross_moved: "crossing_point (0, 2, - 10) a_moved = Some (0, 239 / 120, - 10)"
  by (simp add: crossing_point_def a_moved_def Let_def)

lemma radial_moved: "radial_distance (0, 2, - 10) (0, 239 / 120, - 10) = 1 / 120"
proof -
  have "sqrt (1 / 14400) = sqrt ((1 / 120) * (1 / 120))" by simp
  also have "\<dots> = 1 / 120" unfolding sqrt_sq by simp
  finally show ?thesis by (simp add: radial_distance_def Let_def)
qed

lemma radial_far: "radial_distance (3, 719 / 120, - 10) (0, 239 / 120, - 10) = 5"
proof -
  have "sqrt 25 = sqrt (5 * 5)" by simp
  also have "\<dots> = 5" unfolding sqrt_sq by simp
  finally show ?thesis by (simp add: radial_distance_def Let_def)
qed

lemma stick_moved:
  "stick (t_near\<lparr> time := tm \<rparr>) (1 / 120) (0, 239 / 120, - 10) (sc, stk, a_moved) =
     (sc + 10, stk + 1, a_hit)"
  by (simp add: stick_def t_near_def new_Target_def band_values a_moved_def a_hit_def vec3_def)

lemma loop_moved:
  "target_loop [(0, 2, - 10)] 0 [t_near\<lparr> time := tm \<rparr>] (sc, stk, a_moved) =
     Some (sc + 10, stk + 1, a_hit)"
proof -
  have "target_loop [(0, 2, - 10)] 0 [t_near\<lparr> time := tm \<rparr>] (sc, stk, a_moved) =
     Some (stick (t_near\<lparr> time := tm \<rparr>)
       (radial_distance ([(0, 2, - 10)] ! 0) (0, 239 / 120, - 10)) (0, 239 / 120, - 10)
       (sc, stk, a_moved))"
    by (rule target_loop_hit) (simp_all add: cross_moved radial_moved t_near_def new_Target_def)
  then show ?thesis by (simp add: radial_moved stick_moved)
qed

lemma clear_update: "WeatherSystem_update dt r new_WeatherSystem = Some (r, new_WeatherSystem)"
proof -
  have "type_of new_WeatherSystem = Some ''clear''"
    by (simp add: type_of_cases new_WeatherSystem_def)
  from preset_of_clear [OF this] show ?thesis
    by (simp add: WeatherSystem_update_def map_filter_def new_WeatherSystem_def)
qed

lemma clear_wind:
  "weather s = new_WeatherSystem \<Longrightarrow> get_weather_wind_vector s = Some (0, 0, 0)"
proof -
  assume w: "weather s = new_WeatherSystem"
  have "type_of new_WeatherSystem = Some ''clear''"
    by (simp add: type_of_cases new_WeatherSystem_def)
  from preset_of_clear [OF this] w show ?thesis
    by (simp add: get_weather_wind_vector_def vec3_def)
qed

lemma s_fly_fields:
  "weather s_fly = new_WeatherSystem \<and> gravity s_fly = - 15 \<and> arrows s_fly = [a_fly] \<and>
   targets s_fly = [t_near] \<and> score s_fly = 0 \<and> streak s_fly = 0 \<and> \<not> is_drawing s_fly"
  by (simp add: s_fly_def reset_game_def GAME_CONFIG_def)

lemma center_near: "get_center (t_near\<lparr> time := tm \<rparr>) = (0, 2, - 10)"
  by (simp add: get_center_def t_near_def new_Target_def vec3_def)

lemma targets_fly:
  "update_targets (1 / 30) (s_fly\<lparr> weather := new_WeatherSystem \<rparr>) =
     s_fly\<lparr> targets := [t_near\<lparr> time := 1 / 30 \<rparr>], target_centers := [(0, 2, - 10)] \<rparr>"
proof -
  have "Target_update (1 / 30) t_near = t_near\<lparr> time := 1 / 30 \<rparr>"
    by (simp add: Target_update_def t_near_def new_Target_def)
  then show ?thesis
    using s_fly_fields by (simp add: update_targets_def Let_def center_near)
qed

lemma arrows_fly:
  "update_arrows (1 / 30)
     (s_fly\<lparr> targets := [t_near\<lparr> time := 1 / 30 \<rparr>], target_centers := [(0, 2, - 10)] \<rparr>) =
   Some (s_fly\<lparr> targets := [t_near\<lparr> time := 1 / 30 \<rparr>], target_centers := [(0, 2, - 10)],
           arrows := [a_moved] \<rparr>)"
proof -
  let ?s = "s_fly\<lparr> targets := [t_near\<lparr> time := 1 / 30 \<rparr>], target_centers := [(0, 2, - 10)] \<rparr>"
  have w: "get_weather_wind_vector ?s = Some (0, 0, 0)"
    by (rule clear_wind) (simp add: s_fly_fields)
  have al: "alive a_moved" by (simp add: a_moved_def)
  show ?thesis
    using s_fly_fields al by (simp add: update_arrows_def w Let_def upd_fly)
qed

lemma arrow_loop_fly:
  "arrow_loop [(0, 2, - 10)] [t_near\<lparr> time := tm \<rparr>] [a_moved] (sc, stk) =
     Some (sc + 10, stk + 1, [a_hit])"
proof -
  have al: "alive a_moved" and ns: "\<not> stuck a_moved" by (simp_all add: a_moved_def)
  show ?thesis unfolding arrow_loop_Cons_test [OF al ns] loop_moved by simp
qed

lemma resolve_fly:
  "resolve_arrow_target_collisions
     (s_fly\<lparr> targets := [t_near\<lparr> time := 1 / 30 \<rparr>], target_centers := [(0, 2, - 10)],
           arrows := [a_moved] \<rparr>) = Some s_hit"
  using s_fly_fields
  by (simp add: resolve_arrow_target_collisions_def arrow_loop_fly s_hit_def
      del: arrow_loop.simps)

lemma tick_fly: "update_simulation (1 / 30) r s_fly = Some (r, s_hit)"
  using s_fly_fields
  by (simp add: update_simulation_def clear_update targets_fly arrows_fly resolve_fly Let_def)

lemma s_hit_fields:
  "weather s_hit = new_WeatherSystem \<and> gravity s_hit = - 15 \<and> arrows s_hit = [a_hit] \<and>
   targets s_hit = [t_near\<lparr> time := 1 / 30 \<rparr>] \<and> score s_hit = 10 \<and> streak s_hit = 1 \<and>
   \<not> is_drawing s_hit"
  using s_fly_fields by (simp add: s_hit_def)

lemma tick_hit: "update_simulation (1 / 30) r s_hit = Some (r, s_hit2)"
proof -
  have t: "Target_update (1 / 30) (t_near\<lparr> time := 1 / 30 \<rparr>) = t_near\<lparr> time := 1 / 15 \<rparr>"
    by (simp add: Target_update_def t_near_def new_Target_def)
  have ut: "update_targets (1 / 30) (s_hit\<lparr> weather := new_WeatherSystem \<rparr>) = s_hit2"
    using s_hit_fields
    by (simp add: update_targets_def Let_def t center_near s_hit2_def s_hit_def)
  have f2: "weather s_hit2 = new_WeatherSystem" "arrows s_hit2 = [a_hit]"
    "targets s_hit2 = [t_near\<lparr> time := 1 / 15 \<rparr>]" "target_centers s_hit2 = [(0, 2, - 10)]"
    "score s_hit2 = 10" "streak s_hit2 = 1"
    using s_hit_fields by (simp_all add: s_hit2_def s_hit_def)
  have st: "stuck a_hit" "alive a_hit" by (simp_all add: a_hit_def)
  have ua: "update_arrows (1 / 30) s_hit2 = Some s_hit2"
    using f2 st by (simp add: update_arrows_def clear_wind Let_def Arrow_update_stuck)
  have rs: "resolve_arrow_target_collisions s_hit2 = Some s_hit2"
    using f2 st by (simp add: resolve_arrow_target_collisions_def)
  show ?thesis
    using s_hit_fields by (simp add: update_simulation_def clear_update ut ua rs Let_def)
qed

lemma frame_100: "frame_dt 100 = 1 / 30"
  by (simp add: frame_dt_def GAME_CONFIG_def Let_def)

lemma run_fly: "run [Frame 100 True, Frame 100 True] (r, s_fly) = Some (r, s_hit2)"
  using s_fly_fields s_hit_fields
  by (simp add: render_animation_def frame_100 tick_fly tick_hit Let_def)

subsection \<open>The claims at concrete sessions\<close>

lemma s_drawn_eq: "s_drawn = reset_game\<lparr> is_drawing := True, draw_strength := 1 / 25 \<rparr>"
  by (simp add: s_drawn_def key_Draw_press_def update_aim_def reset_game_def GAME_CONFIG_def)

lemma aim_ahead: "aim_yaw s = 0 \<Longrightarrow> aim_pitch s = 0 \<Longrightarrow> current_aim_direction s = (0, 0, - 1)"
  by (simp add: current_aim_direction_def normalized_def vec3_def)

lemma s_drawn_fields:
  "is_drawing s_drawn \<and> shots_taken s_drawn = 0 \<and> max_shots s_drawn = 20 \<and>
   draw_strength s_drawn = 1 / 25 \<and> arrows s_drawn = [] \<and> aim_yaw s_drawn = 0 \<and>
   aim_pitch s_drawn = 0 \<and> weather s_drawn = new_WeatherSystem"
  by (simp add: s_drawn_eq reset_game_def GAME_CONFIG_def)

lemma release_drawn: "key_Draw_release s_drawn = Some s_shot"
proof -
  let ?s0 = "s_drawn\<lparr> is_drawing := False \<rparr>"
  have lt: "shots_taken ?s0 < max_shots ?s0" using s_drawn_fields by simp
  have w: "get_weather_wind_vector ?s0 = Some (0, 0, 0)"
    by (rule clear_wind) (simp add: s_drawn_fields)
  have d: "current_aim_direction ?s0 = (0, 0, - 1)"
    by (rule aim_ahead) (simp_all add: s_drawn_fields)
  have sp: "compute_arrow_speed ?s0 = 348 / 25"
    using s_drawn_fields by (simp add: compute_arrow_speed_def GAME_CONFIG_def)
  have f: "fired ?s0 (0, 0, 0) = a_shot"
    unfolding fired_def d sp
    by (simp add: a_shot_def get_player_origin_def GAME_CONFIG_def vec3_def)
  have e: "?s0\<lparr> arrows := arrows ?s0 @ [a_shot], shots_taken := shots_taken ?s0 + 1 \<rparr> = s_shot"
    by (simp add: s_shot_def reset_game_def s_drawn_eq)
  have "spawn_arrow ?s0 = Some s_shot"
    unfolding spawn_arrow_fires [OF lt w] f e ..
  with s_drawn_fields show ?thesis by (simp add: key_Draw_release_def)
qed

text \<open>
  Claim C2 as stated fails: after a reset, a press and the charge of one frame, the
  release fires one arrow and leaves the charge at 1/25, not at 0.
\<close>

theorem release_keeps_charge:
  "is_drawing s_drawn \<and> shots_taken s_drawn < max_shots s_drawn \<and>
   key_Draw_release s_drawn = Some s_shot \<and> draw_strength s_shot = 1 / 25 \<and>
   arrows s_shot = [a_shot] \<and> shots_taken s_shot = 1"
proof -
  have "draw_strength s_shot = 1 / 25 \<and> arrows s_shot = [a_shot] \<and> shots_taken s_shot = 1"
    by (simp add: s_shot_def)
  with release_drawn s_drawn_fields show ?thesis by simp
qed

text \<open>
  The release of \<open>s_drawn\<close> fires one arrow and keeps the charge; with the budget used up
  it fires none; without a draw it does nothing; the next press sets the charge to 0.
\<close>

theorem release_fires_one_witness:
  "is_drawing s_drawn \<and> shots_taken s_drawn < max_shots s_drawn \<and> ready s_drawn \<and>
   map_option shots_taken (key_Draw_release s_drawn) = Some 1 \<and>
   map_option (length \<circ> arrows) (key_Draw_release s_drawn) = Some 1 \<and>
   map_option draw_strength (key_Draw_release s_drawn) = Some (1 / 25) \<and>
   map_option is_drawing (key_Draw_release s_drawn) = Some False \<and>
   is_drawing s_odd \<and> max_shots s_odd \<le> shots_taken s_odd \<and>
   map_option (length \<circ> arrows) (key_Draw_release s_odd) = Some 0 \<and>
   \<not> is_drawing reset_game \<and> key_Draw_release reset_game = Some reset_game \<and>
   \<not> is_drawing s_shot \<and> shots_taken s_shot < max_shots s_shot \<and>
   draw_strength (key_Draw_press s_shot) = 0"
proof -
  note T = release_fires_one [of s_drawn]
  have d: "is_drawing s_drawn" "shots_taken s_drawn < max_shots s_drawn" "ready s_drawn"
    using s_drawn_fields by (simp_all add: ready_def new_WeatherSystem_def)
  from T d obtain a where
    r: "key_Draw_release s_drawn =
      Some (s_drawn\<lparr> is_drawing := False, arrows := arrows s_drawn @ [a],
              shots_taken := shots_taken s_drawn + 1 \<rparr>)" by blast
  from r s_drawn_fields have 1: "map_option shots_taken (key_Draw_release s_drawn) = Some 1"
    and 2: "map_option (length \<circ> arrows) (key_Draw_release s_drawn) = Some 1"
    and 3: "map_option is_drawing (key_Draw_release s_drawn) = Some False" by simp_all
  from r s_drawn_fields
  have 4: "map_option draw_strength (key_Draw_release s_drawn) = Some (1 / 25)" by simp
  have o: "is_drawing s_odd" "max_shots s_odd \<le> shots_taken s_odd"
    by (simp_all add: s_odd_def reset_game_def GAME_CONFIG_def)
  have oa: "arrows s_odd = []" by (simp add: s_odd_def reset_game_def)
  from release_fires_one [of s_odd] o
  have "key_Draw_release s_odd = Some (s_odd\<lparr> is_drawing := False \<rparr>)" by blast
  with oa have 5: "map_option (length \<circ> arrows) (key_Draw_release s_odd) = Some 0" by simp
  have n: "\<not> is_drawing reset_game" by (simp add: reset_game_def)
  from release_fires_one [of reset_game] n
  have 6: "key_Draw_release reset_game = Some reset_game" by blast
  have s: "\<not> is_drawing s_shot" "shots_taken s_shot < max_shots s_shot"
    by (simp_all add: s_shot_def reset_game_def GAME_CONFIG_def)
  from release_fires_one [of s_shot] s
  have "key_Draw_press s_shot = s_shot\<lparr> is_drawing := True, draw_strength := 0 \<rparr>" by blast
  then have 7: "draw_strength (key_Draw_press s_shot) = 0" by simp
  from d 1 2 3 4 o 5 n 6 s 7 show ?thesis by blast
qed

lemma s_fly_sound: "sound_arrows s_fly \<and> ready s_fly"
  using s_fly_fields
  by (simp add: sound_arrows_def ready_def a_fly_def new_WeatherSystem_def)

lemma a_hit_fields: "stuck a_hit \<and> alive a_hit \<and> lodged a_hit \<and> vel a_hit = vec3 0 0 0 \<and>
   pos a_hit = (0, 239 / 120, - (49 / 5))"
  by (simp add: a_hit_def lodged_def vec3_def)

lemma s_hit2_arrows: "arrows s_hit2 = [a_hit] \<and> arrows s_hit = [a_hit]"
  by (simp add: s_hit2_def s_hit_def)

text \<open>Twenty-one fire requests after a reset take twenty shots; the twenty-first does nothing.\<close>

theorem shots_budget_witness:
  "within_budget reset_game \<and>
   map_option shots_taken (fires 21 reset_game) = Some 20 \<and>
   map_option (length \<circ> arrows) (fires 21 reset_game) = Some 20 \<and>
   map_option shots_taken (fires 3 reset_game) = Some 3 \<and>
   within_budget s_spent \<and> max_shots s_spent \<le> shots_taken s_spent \<and>
   spawn_arrow s_spent = Some s_spent \<and>
   run [Draw_Press, Frame 100 True, Draw_Release, Frame 100 True] (r0, reset_game) \<noteq> None"
proof -
  have b: "within_budget reset_game" using reset_game_ok by simp
  from shots_budget [of reset_game 21 "[]" r0] obtain s1 where
    "fires 21 reset_game = Some s1" "shots_taken s1 = min 21 20" "length (arrows s1) = min 21 20"
    by blast
  then have 1: "map_option shots_taken (fires 21 reset_game) = Some 20"
    and 2: "map_option (length \<circ> arrows) (fires 21 reset_game) = Some 20" by simp_all
  from shots_budget [of reset_game 3 "[]" r0] obtain s3 where
    "fires 3 reset_game = Some s3" "shots_taken s3 = min 3 20" by blast
  then have 3: "map_option shots_taken (fires 3 reset_game) = Some 3" by simp
  have sp: "within_budget s_spent" "max_shots s_spent \<le> shots_taken s_spent"
    by (simp_all add: s_spent_def within_budget_def reset_game_def GAME_CONFIG_def)
  from shots_budget [of s_spent 0 "[]" r0] sp
  have 4: "spawn_arrow s_spent = Some s_spent" by blast
  from shots_budget [of reset_game 0
      "[Draw_Press, Frame 100 True, Draw_Release, Frame 100 True]" r0]
  have 5: "run [Draw_Press, Frame 100 True, Draw_Release, Frame 100 True] (r0, reset_game) \<noteq> None"
    by auto
  from b 1 2 3 sp 4 5 show ?thesis by blast
qed

text \<open>
  The arrow lodged by the first tick of \<open>s_fly\<close> is still in the collection, and alive,
  after the second.
\<close>

theorem stuck_arrows_stay_witness:
  "Reset_Game \<notin> set [Frame 100 True, Draw_Press, Cycle_Weather] \<and>
   run [Frame 100 True] (r0, s_hit) = Some (r0, s_hit2) \<and>
   filter lodged (arrows s_hit) = [a_hit] \<and>
   subseq [a_hit] (filter lodged (arrows s_hit2)) \<and>
   update_arrows (1 / 30) s_hit2 \<noteq> None \<and>
   subseq [a_hit] (arrows (the (update_arrows (1 / 30) s_hit2))) \<and>
   update_simulation (1 / 30) r0 s_fly = Some (r0, s_hit) \<and> alive a_hit \<and>
   sound_arrows s_fly \<and> ready s_fly \<and>
   run [Frame 100 True, Frame 100 True] (r0, s_fly) = Some (r0, s_hit2) \<and>
   a_hit \<in> set (arrows s_hit2) \<and> stuck a_hit"
proof -
  have 0: "Reset_Game \<notin> set [Frame 100 True, Draw_Press, Cycle_Weather]" by simp
  have r1: "run [Frame 100 True] (r0, s_hit) = Some (r0, s_hit2)"
    using s_hit_fields by (simp add: render_animation_def frame_100 tick_hit Let_def)
  have f: "filter lodged (arrows s_hit) = [a_hit]"
    using s_hit2_arrows a_hit_fields by simp
  from stuck_arrows_stay [of "[Frame 100 True]" r0 s_hit] r1 f
  have 1: "subseq [a_hit] (filter lodged (arrows s_hit2))" by simp
  have ua: "update_arrows (1 / 30) s_hit2 \<noteq> None"
    using clear_wind [of s_hit2] s_hit_fields
    by (simp add: update_arrows_def Let_def s_hit2_def)
  then obtain s1 where u1: "update_arrows (1 / 30) s_hit2 = Some s1" by blast
  have f2: "filter lodged (arrows s_hit2) = [a_hit]"
    using s_hit2_arrows a_hit_fields by simp
  from stuck_arrows_stay [of "[]" r0 s_hit2 "1 / 30"] u1 f2
  have 2: "subseq [a_hit] (arrows (the (update_arrows (1 / 30) s_hit2)))" by simp
  from stuck_arrows_stay [of "[]" r0 s_fly "1 / 30"] tick_fly [of r0]
  have "\<forall>b\<in>set (arrows s_hit). alive b" by blast
  with s_hit2_arrows have 3: "alive a_hit" by simp
  from stuck_arrows_stay [of "[Frame 100 True, Frame 100 True]" r0 s_fly] s_fly_sound
    run_fly [of r0]
  have "\<forall>b\<in>set (arrows s_hit2). stuck b \<longrightarrow> alive b" by blast
  have 4: "a_hit \<in> set (arrows s_hit2)" "stuck a_hit" using s_hit2_arrows a_hit_fields by simp_all
  from 0 r1 f 1 ua 2 tick_fly [of r0] 3 s_fly_sound run_fly [of r0] 4 show ?thesis by blast
qed

text \<open>
  The lodged arrow \<open>a_hit\<close> under updates with wind, with another gravity and with a
  negative time step, under the resolver and under a whole tick.
\<close>

theorem stuck_arrow_frozen_witness:
  "stuck a_hit \<and>
   Arrow_update (1 / 30) (- 15) (1, 2, 3) a_hit = a_hit \<and>
   fold (\<lambda>(dt, grav, wind). Arrow_update dt grav wind)
     [(1 / 30, - 15, (1, 2, 3)), (- 1, - 10, (0, 0, 0))] a_hit = a_hit \<and>
   arrow_loop [(0, 2, - 10)] [t_near] [a_hit] (10, 1) = Some (10, 1, [a_hit]) \<and>
   \<not> stuck a_moved \<and>
   target_loop [(0, 2, - 10)] 0 [t_near\<lparr> time := 1 / 30 \<rparr>] (0, 0, a_moved) = Some (10, 1, a_hit) \<and>
   vel a_hit = vec3 0 0 0 \<and>
   update_simulation (1 / 30) r0 s_hit = Some (r0, s_hit2) \<and>
   lodged a_hit \<and> a_hit \<in> set (arrows s_hit) \<and> a_hit \<in> set (arrows s_hit2) \<and>
   sound_arrows s_fly \<and>
   run [Frame 100 True, Frame 100 True] (r0, s_fly) = Some (r0, s_hit2)"
proof -
  note T = stuck_arrow_frozen [of a_hit "1 / 30" "- 15" "(1, 2, 3)"
      "[(1 / 30, - 15, (1, 2, 3)), (- 1, - 10, (0, 0, 0))]" "[(0, 2, - 10)]" "[t_near]" 10 1]
  from T a_hit_fields
  have 1: "Arrow_update (1 / 30) (- 15) (1, 2, 3) a_hit = a_hit"
    and 2: "fold (\<lambda>(dt, grav, wind). Arrow_update dt grav wind)
     [(1 / 30, - 15, (1, 2, 3)), (- 1, - 10, (0, 0, 0))] a_hit = a_hit"
    and 3: "arrow_loop [(0, 2, - 10)] [t_near] [a_hit] (10, 1) = Some (10, 1, [a_hit])"
    by blast+
  have ns: "\<not> stuck a_moved" by (simp add: a_moved_def)
  have lp: "target_loop [(0, 2, - 10)] 0 [t_near\<lparr> time := 1 / 30 \<rparr>] (0, 0, a_moved) =
      Some (10, 1, a_hit)"
    using loop_moved [of "1 / 30" 0 0] by simp
  from stuck_arrow_frozen [where a = a_moved and cs = "[(0, 2, - 10)]"
      and ts = "[t_near\<lparr> time := 1 / 30 \<rparr>]" and sc = 0 and stk = 0 and i = 0]
    ns lp a_hit_fields
  have 4: "vel a_hit = vec3 0 0 0" by blast
  from stuck_arrow_frozen [where dt = "1 / 30" and r = r0 and s = s_hit] tick_hit [of r0]
    s_hit2_arrows a_hit_fields
  have 5: "a_hit \<in> set (arrows s_hit2)" by simp
  from stuck_arrow_frozen [where s = s_fly and es = "[Frame 100 True, Frame 100 True]"
      and r = r0] s_fly_sound run_fly [of r0]
  have "\<forall>b\<in>set (arrows s_hit2). stuck b \<longrightarrow> vel b = vec3 0 0 0" by blast
  have 6: "a_hit \<in> set (arrows s_hit)" using s_hit2_arrows by simp
  from a_hit_fields 1 2 3 ns lp 4 tick_hit [of r0] 5 6 s_fly_sound run_fly [of r0]
  show ?thesis by blast
qed

subsection \<open>The resolver on the session\<close>

lemma stick_points:
  "stick t rr h (sc, stk, a) =
     (sc + points_for t rr, (if 8 \<le> points_for t rr then stk + 1 else 0),
      a\<lparr> stuck := True, vel := vec3 0 0 0, pos := plus_v h (vec3 0 0 (2 / 10)) \<rparr>)"
  by (simp add: stick_def points_for_def Let_def)

lemma target_loop_first_hit:
  "i + length ts \<le> length cs \<Longrightarrow>
   target_loop cs i ts (sc, stk, a) =
     Some (case first_hit (drop i cs) ts a of
             None \<Rightarrow> (sc, stk, a)
           | Some (t, rr, h) \<Rightarrow> stick t rr h (sc, stk, a))"
proof (induction ts arbitrary: i)
  case Nil
  show ?case by (cases "drop i cs") simp_all
next
  case (Cons t ts)
  from Cons.prems have i: "i < length cs" and n: "Suc i + length ts \<le> length cs" by simp_all
  from i have d: "drop i cs = cs ! i # drop (Suc i) cs" by (simp add: Cons_nth_drop_Suc)
  note ih = Cons.IH [OF n]
  show ?case
  proof (cases "crossing_point (cs ! i) a")
    case None
    with i ih show ?thesis by (simp add: d hit_of_def)
  next
    case (Some h)
    show ?thesis
    proof (cases "radial_distance (cs ! i) h \<le> radius t")
      case True
      with i Some show ?thesis by (simp add: d hit_of_def Let_def)
    next
      case False
      with i Some ih show ?thesis by (simp add: d hit_of_def Let_def)
    qed
  qed
qed

lemma arrow_loop_char:
  "length ts \<le> length cs \<Longrightarrow>
   arrow_loop cs ts as (sc, stk) =
     Some (sc + sum_list (map (award cs ts) as), fold (streak_step cs ts) as stk,
           map (settle cs ts) as)"
proof (induction as arbitrary: sc stk)
  case Nil
  show ?case by simp
next
  case (Cons a as)
  show ?case
  proof (cases "\<not> alive a \<or> stuck a")
    case True
    then have "award cs ts a = 0" "settle cs ts a = a" "streak_step cs ts a stk = stk"
      by (auto simp: award_def settle_def streak_step_def)
    then show ?thesis
      unfolding arrow_loop_Cons_skip [OF True] Cons.IH [OF Cons.prems] by simp
  next
    case False
    then have al: "alive a" and ns: "\<not> stuck a" by simp_all
    from Cons.prems have l: "0 + length ts \<le> length cs" by simp
    show ?thesis
    proof (cases "first_hit cs ts a")
      case None
      with al ns have "award cs ts a = 0" "settle cs ts a = a" "streak_step cs ts a stk = stk"
        by (simp_all add: award_def settle_def streak_step_def)
      moreover from None have "target_loop cs 0 ts (sc, stk, a) = Some (sc, stk, a)"
        unfolding target_loop_first_hit [OF l] by simp
      ultimately show ?thesis
        unfolding arrow_loop_Cons_test [OF al ns] by (simp add: Cons.IH [OF Cons.prems])
    next
      case (Some res)
      obtain t rr h where res: "res = (t, rr, h)" by (cases res)
      from Some res al ns have "award cs ts a = points_for t rr"
        "settle cs ts a = a\<lparr> stuck := True, vel := vec3 0 0 0, pos := plus_v h (vec3 0 0 (2 / 10)) \<rparr>"
        "streak_step cs ts a stk = (if 8 \<le> points_for t rr then stk + 1 else 0)"
        by (simp_all add: award_def settle_def streak_step_def)
      moreover from Some res have "target_loop cs 0 ts (sc, stk, a) =
          Some (sc + points_for t rr, (if 8 \<le> points_for t rr then stk + 1 else 0),
            a\<lparr> stuck := True, vel := vec3 0 0 0, pos := plus_v h (vec3 0 0 (2 / 10)) \<rparr>)"
        unfolding target_loop_first_hit [OF l] by (simp add: stick_points)
      ultimately show ?thesis
        unfolding arrow_loop_Cons_test [OF al ns] by (simp add: Cons.IH [OF Cons.prems])
    qed
  qed
qed

lemma resolve_char:
  "length (targets s) \<le> length (target_centers s) \<Longrightarrow>
   resolve_arrow_target_collisions s =
     Some (s\<lparr> score := score s + sum_list (map (award (target_centers s) (targets s)) (arrows s)),
              streak := fold (streak_step (target_centers s) (targets s)) (arrows s) (streak s),
              arrows := map (settle (target_centers s) (targets s)) (arrows s) \<rparr>)"
  by (simp add: resolve_arrow_target_collisions_def arrow_loop_char)


lemma preset_of_index:
  "current_index w' = current_index w \<Longrightarrow> preset_of w' = preset_of w"
  by (simp add: preset_of_def type_of_def)

lemma update_simulation_char:
  assumes "update_simulation dt r s = Some (r1, s1)"
  shows "\<exists>wind. get_weather_wind_vector s = Some wind \<and>
     targets s1 = map (Target_update dt) (targets s) \<and>
     target_centers s1 = map get_center (targets s1) \<and>
     score s1 = score s + sum_list (map (award (target_centers s1) (targets s1))
       (filter alive (map (Arrow_update dt (gravity s) wind) (arrows s)))) \<and>
     streak s1 = fold (streak_step (target_centers s1) (targets s1))
       (filter alive (map (Arrow_update dt (gravity s) wind) (arrows s))) (streak s) \<and>
     arrows s1 = map (settle (target_centers s1) (targets s1))
       (filter alive (map (Arrow_update dt (gravity s) wind) (arrows s)))"
proof -
  from update_simulation_SomeD [OF assms] obtain w' s3 where
    wu: "WeatherSystem_update dt r (weather s) = Some (r1, w')" and
    ua: "update_arrows dt (update_targets dt (s\<lparr> weather := w' \<rparr>)) = Some s3" and
    rs: "resolve_arrow_target_collisions s3 = Some s1" by blast
  let ?s2 = "update_targets dt (s\<lparr> weather := w' \<rparr>)"
  from update_arrows_SomeD [OF ua] obtain wind where
    w2: "get_weather_wind_vector ?s2 = Some wind" and
    s3: "s3 = ?s2\<lparr> arrows := filter alive (map (Arrow_update dt (gravity ?s2) wind) (arrows ?s2)) \<rparr>"
    by blast
  from update_frame [OF wu] have "current_index w' = current_index (weather s)" by simp
  then have "preset_of w' = preset_of (weather s)" by (rule preset_of_index)
  with w2 have w: "get_weather_wind_vector s = Some wind"
    by (simp add: get_weather_wind_vector_def update_targets_weather)
  have f3: "targets s3 = map (Target_update dt) (targets s)"
    "target_centers s3 = map get_center (map (Target_update dt) (targets s))"
    "arrows s3 = filter alive (map (Arrow_update dt (gravity s) wind) (arrows s))"
    "score s3 = score s" "streak s3 = streak s"
    unfolding s3 by (simp_all add: update_targets_def Let_def)
  have len: "length (targets s3) \<le> length (target_centers s3)" by (simp add: f3)
  from rs have s1: "s1 =
      s3\<lparr> score := score s3 + sum_list (map (award (target_centers s3) (targets s3)) (arrows s3)),
          streak := fold (streak_step (target_centers s3) (targets s3)) (arrows s3) (streak s3),
          arrows := map (settle (target_centers s3) (targets s3)) (arrows s3) \<rparr>"
    unfolding resolve_char [OF len] by simp
  have t1: "targets s1 = targets s3" and c1: "target_centers s1 = target_centers s3"
    by (subst s1, simp)+
  have sc: "score s1 = score s3 + sum_list (map (award (target_centers s3) (targets s3)) (arrows s3))"
    by (subst s1, simp)
  have st: "streak s1 = fold (streak_step (target_centers s3) (targets s3)) (arrows s3) (streak s3)"
    by (subst s1, simp)
  have ar: "arrows s1 = map (settle (target_centers s3) (targets s3)) (arrows s3)"
    by (subst s1, simp)
  show ?thesis
    unfolding t1 c1 sc st ar f3 using w by simp
qed







subsection \<open>A miss followed by a hit, evaluated\<close>

lemma s_two_fields:
  "weather s_two = new_WeatherSystem \<and> gravity s_two = - 15 \<and> arrows s_two = [a_fly] \<and>
   targets s_two = [t_far, t_near] \<and> score s_two = 0 \<and> streak s_two = 0 \<and> \<not> is_drawing s_two"
  by (simp add: s_two_def reset_game_def GAME_CONFIG_def)


lemma cross_far: "crossing_point (3, 719 / 120, - 10) a_moved = Some (0, 239 / 120, - 10)"
  by (simp add: crossing_point_def a_moved_def Let_def)

lemma radius_near_far: "radius (t_near\<lparr> time := tm \<rparr>) = 1 \<and> radius (t_far\<lparr> time := tm \<rparr>) = 1 \<and>
   radius t_near = 1 \<and> radius t_far = 1"
  by (simp add: t_near_def t_far_def new_Target_def)

lemma hit_near: "hit_of (0, 2, - 10) (t_near\<lparr> time := tm \<rparr>) a_moved = Some (1 / 120, (0, 239 / 120, - 10))"
  by (simp add: hit_of_def cross_moved radial_moved radius_near_far)

lemma hit_far: "hit_of (3, 719 / 120, - 10) (t_far\<lparr> time := tm \<rparr>) a_moved = None"
  by (simp add: hit_of_def cross_far radial_far radius_near_far)



lemma s_two_mid_fields:
  "targets s_two_mid = [t_far\<lparr> time := 1 / 30 \<rparr>, t_near\<lparr> time := 1 / 30 \<rparr>] \<and>
   target_centers s_two_mid = [(3, 719 / 120, - 10), (0, 2, - 10)] \<and>
   arrows s_two_mid = [a_moved] \<and> score s_two_mid = 0 \<and> streak s_two_mid = 0"
  using s_two_fields by (simp add: s_two_mid_def)

lemma a_moved_flags: "alive a_moved \<and> \<not> stuck a_moved"
  by (simp add: a_moved_def)

lemma first_hit_two:
  "first_hit [(3, 719 / 120, - 10), (0, 2, - 10)]
     [t_far\<lparr> time := 1 / 30 \<rparr>, t_near\<lparr> time := 1 / 30 \<rparr>] a_moved =
   Some (t_near\<lparr> time := 1 / 30 \<rparr>, 1 / 120, (0, 239 / 120, - 10))"
  by (simp add: hit_near hit_far)

lemma settle_hit:
  "a_moved\<lparr> stuck := True, vel := vec3 0 0 0,
      pos := plus_v (0, 239 / 120, - 10) (vec3 0 0 (2 / 10)) \<rparr> = a_hit"
  by (simp add: a_moved_def a_hit_def vec3_def)

lemma points_near: "points_for (t_near\<lparr> time := tm \<rparr>) (1 / 120) = 10"
  by (simp add: points_for_def radius_near_far band_values)

lemma resolve_two: "resolve_arrow_target_collisions s_two_mid = Some s_two_hit"
proof -
  have len: "length (targets s_two_mid) \<le> length (target_centers s_two_mid)"
    by (simp add: s_two_mid_fields)
  have aw: "award (target_centers s_two_mid) (targets s_two_mid) a_moved = 10"
    and sk: "streak_step (target_centers s_two_mid) (targets s_two_mid) a_moved 0 = 1"
    using a_moved_flags
    by (simp_all add: s_two_mid_fields award_def streak_step_def first_hit_two
        points_near del: first_hit.simps)
  have "settle (target_centers s_two_mid) (targets s_two_mid) a_moved =
      a_moved\<lparr> stuck := True, vel := vec3 0 0 0,
        pos := plus_v (0, 239 / 120, - 10) (vec3 0 0 (2 / 10)) \<rparr>"
    using a_moved_flags
    by (simp add: s_two_mid_fields settle_def first_hit_two del: first_hit.simps)
  then have se: "settle (target_centers s_two_mid) (targets s_two_mid) a_moved = a_hit"
    by (simp only: settle_hit)
  show ?thesis
    unfolding resolve_char [OF len]
    using s_two_mid_fields aw se sk by (simp add: s_two_hit_def)
qed






subsection \<open>The order of the tick in the source\<close>

lemma hit_rel_map_alive: "list_all2 hit_rel xs ys \<Longrightarrow> map alive ys = map alive xs"
  by (induction rule: list_all2_induct) (auto simp: hit_rel_def)

lemma resolve_alive:
  "resolve_arrow_target_collisions s = Some s4 \<Longrightarrow> map alive (arrows s4) = map alive (arrows s)"
proof -
  assume "resolve_arrow_target_collisions s = Some s4"
  from resolve_SomeD [OF this] obtain sc stk as where
    al: "arrow_loop (target_centers s) (targets s) (arrows s) (score s, streak s) =
       Some (sc, stk, as)" and s4: "arrows s4 = as" by auto
  from arrow_loop_hit_rel [OF al] s4 show ?thesis by (simp add: hit_rel_map_alive)
qed

lemma update_arrows_alive: "update_arrows dt s = Some s3 \<Longrightarrow> \<forall>a\<in>set (arrows s3). alive a"
  by (drule update_arrows_SomeD) auto

lemma update_simulation_chain:
  "update_simulation dt r s =
     Option.bind (WeatherSystem_update dt r (weather s)) (\<lambda>(r', w').
       Option.bind (update_arrows dt (update_targets dt (s\<lparr> weather := w' \<rparr>))) (\<lambda>s3.
         map_option (Pair r') (resolve_arrow_target_collisions s3)))"
proof (cases "WeatherSystem_update dt r (weather s)")
  case None
  then show ?thesis by (simp add: update_simulation_def)
next
  case (Some res)
  obtain r' w' where res: "res = (r', w')" by (cases res)
  show ?thesis
  proof (cases "update_arrows dt (update_targets dt (s\<lparr> weather := w' \<rparr>))")
    case None
    with Some res show ?thesis by (simp add: update_simulation_def)
  next
    case s3: (Some s3)
    with Some res show ?thesis
      by (cases "resolve_arrow_target_collisions s3") (simp_all add: update_simulation_def)
  qed
qed

lemma update_simulation_weather:
  assumes "update_simulation dt r s = Some (r1, s1)"
  shows "WeatherSystem_update dt r (weather s) = Some (r1, weather s1)"
proof -
  from update_simulation_SomeD [OF assms] obtain w' s3 where
    wu: "WeatherSystem_update dt r (weather s) = Some (r1, w')" and
    ua: "update_arrows dt (update_targets dt (s\<lparr> weather := w' \<rparr>)) = Some s3" and
    rs: "resolve_arrow_target_collisions s3 = Some s1" by blast
  from update_arrows_SomeD [OF ua] have "weather s3 = w'"
    by (auto simp: update_targets_weather)
  moreover from resolve_SomeD [OF rs] have "weather s1 = weather s3" by auto
  ultimately show ?thesis using wu by simp
qed

lemma prune_dead_alive: "\<forall>a\<in>set (arrows s). alive a \<Longrightarrow> prune_dead s = s"
  by (simp add: prune_dead_def)

text \<open>
  Claim C1, as amended. A tick is, in this order, the weather update, the target
  update, \<open>update_arrows\<close> and the collision resolver, each on the session that the one
  before returns. \<open>update_arrows\<close> is the integration of every arrow followed at once by
  the pruning of those that are not alive, so the pruning comes before the resolver:
  the resolver receives live arrows only, and it changes no alive flag. After a tick
  the weather is the updated weather, the targets are the updated targets with their
  centres, every arrow is alive and there is nothing left to prune; the session is the
  one that pruning after the resolver would give.
\<close>

theorem tick_source_order:
  "update_simulation dt r s =
     Option.bind (WeatherSystem_update dt r (weather s)) (\<lambda>(r', w').
       Option.bind (update_arrows dt (update_targets dt (s\<lparr> weather := w' \<rparr>))) (\<lambda>s3.
         map_option (Pair r') (resolve_arrow_target_collisions s3))) \<and>
   update_arrows dt s = map_option prune_dead (integrate_arrows dt s) \<and>
   (\<forall>s3. update_arrows dt s = Some s3 \<longrightarrow> (\<forall>a\<in>set (arrows s3). alive a)) \<and>
   (\<forall>s4. resolve_arrow_target_collisions s = Some s4 \<longrightarrow>
      map alive (arrows s4) = map alive (arrows s)) \<and>
   (\<forall>r1 s1. update_simulation dt r s = Some (r1, s1) \<longrightarrow>
      WeatherSystem_update dt r (weather s) = Some (r1, weather s1) \<and>
      targets s1 = map (Target_update dt) (targets s) \<and>
      target_centers s1 = map get_center (targets s1) \<and>
      (\<forall>a\<in>set (arrows s1). alive a) \<and> prune_dead s1 = s1) \<and>
   update_simulation dt r s = tick_in_spec_order dt r s"
proof (intro conjI impI allI)
  show "update_simulation dt r s =
     Option.bind (WeatherSystem_update dt r (weather s)) (\<lambda>(r', w').
       Option.bind (update_arrows dt (update_targets dt (s\<lparr> weather := w' \<rparr>))) (\<lambda>s3.
         map_option (Pair r') (resolve_arrow_target_collisions s3)))"
    by (rule update_simulation_chain)
next
  show "update_arrows dt s = map_option prune_dead (integrate_arrows dt s)"
    by (rule update_arrows_split)
next
  fix s3
  assume "update_arrows dt s = Some s3"
  then show "\<forall>a\<in>set (arrows s3). alive a" by (rule update_arrows_alive)
next
  fix s4
  assume "resolve_arrow_target_collisions s = Some s4"
  then show "map alive (arrows s4) = map alive (arrows s)" by (rule resolve_alive)
next
  fix r1 s1
  assume us: "update_simulation dt r s = Some (r1, s1)"
  from update_simulation_weather [OF us]
  show "WeatherSystem_update dt r (weather s) = Some (r1, weather s1)" .
  from update_simulation_char [OF us]
  show "targets s1 = map (Target_update dt) (targets s)"
    and "target_centers s1 = map get_center (targets s1)" by blast+
  from update_simulation_alive [OF us] show al: "\<forall>a\<in>set (arrows s1). alive a" .
  from al show "prune_dead s1 = s1" by (rule prune_dead_alive)
next
  show "update_simulation dt r s = tick_in_spec_order dt r s"
    using tick_spec_order_eq [of dt r s] by simp
qed

lemma upd_fall: "Arrow_update (1 / 30) (- 15) (0, 0, 0) a_fall = a_dead"
  by (simp add: Arrow_update_def a_fall_def a_dead_def vec3_def Let_def)

lemma s_fall_fields:
  "weather s_fall = new_WeatherSystem \<and> gravity s_fall = - 15 \<and> arrows s_fall = [a_fall] \<and>
   targets s_fall = [t_near] \<and> score s_fall = 0 \<and> streak s_fall = 0 \<and> \<not> is_drawing s_fall"
  by (simp add: s_fall_def reset_game_def GAME_CONFIG_def)

lemma a_dead_flags: "\<not> alive a_dead"
  by (simp add: a_dead_def)

lemma integrate_fall: "integrate_arrows (1 / 30) s_fall = Some (s_fall\<lparr> arrows := [a_dead] \<rparr>)"
proof -
  have w: "get_weather_wind_vector s_fall = Some (0, 0, 0)"
    by (rule clear_wind) (simp add: s_fall_fields)
  show ?thesis using s_fall_fields by (simp add: integrate_arrows_def w upd_fall)
qed

lemma arrows_fall: "update_arrows (1 / 30) s_fall = Some (s_fall\<lparr> arrows := [] \<rparr>)"
  unfolding update_arrows_split integrate_fall
  by (simp add: prune_dead_def a_dead_flags)

lemma targets_fall:
  "update_targets (1 / 30) (s_fall\<lparr> weather := new_WeatherSystem \<rparr>) =
     s_fall\<lparr> targets := [t_near\<lparr> time := 1 / 30 \<rparr>], target_centers := [(0, 2, - 10)] \<rparr>"
proof -
  have "Target_update (1 / 30) t_near = t_near\<lparr> time := 1 / 30 \<rparr>"
    by (simp add: Target_update_def t_near_def new_Target_def)
  then show ?thesis
    using s_fall_fields by (simp add: update_targets_def Let_def center_near)
qed

lemma arrows_fall_tick:
  "update_arrows (1 / 30)
     (s_fall\<lparr> targets := [t_near\<lparr> time := 1 / 30 \<rparr>], target_centers := [(0, 2, - 10)] \<rparr>) =
   Some s_fall_out"
proof -
  let ?s = "s_fall\<lparr> targets := [t_near\<lparr> time := 1 / 30 \<rparr>], target_centers := [(0, 2, - 10)] \<rparr>"
  have w: "get_weather_wind_vector ?s = Some (0, 0, 0)"
    by (rule clear_wind) (simp add: s_fall_fields)
  show ?thesis
    using s_fall_fields a_dead_flags
    by (simp add: update_arrows_def w Let_def upd_fall s_fall_out_def)
qed

lemma s_fall_out_fields:
  "arrows s_fall_out = [] \<and> score s_fall_out = 0 \<and> streak s_fall_out = 0 \<and>
   targets s_fall_out = [t_near\<lparr> time := 1 / 30 \<rparr>] \<and>
   target_centers s_fall_out = [(0, 2, - 10)]"
  using s_fall_fields by (simp add: s_fall_out_def)

lemma s_fall_out_same: "s_fall_out\<lparr> score := 0, streak := 0, arrows := [] \<rparr> = s_fall_out"
  by (simp add: s_fall_out_def s_fall_def reset_game_def)

lemma resolve_fall: "resolve_arrow_target_collisions s_fall_out = Some s_fall_out"
  using s_fall_out_fields
  by (simp add: resolve_arrow_target_collisions_def s_fall_out_same)

lemma tick_fall: "update_simulation (1 / 30) r s_fall = Some (r, s_fall_out)"
  using s_fall_fields
  by (simp add: update_simulation_def clear_update targets_fall arrows_fall_tick resolve_fall
      Let_def)

text \<open>
  Claim C1 as stated fails: in the tick of \<open>s_fall\<close> the arrow falls below the ground in
  \<open>update\<close>, and \<open>update_arrows\<close>, the third step of the tick, returns the session
  without it; the integration alone would have kept it. The resolver, the fourth step,
  is called on \<open>s_fall_out\<close>, which has no arrow: the removal has happened before
  collision resolution, not after it.
\<close>

theorem pruning_before_resolver:
  "Arrow_update (1 / 30) (- 15) (0, 0, 0) a_fall = a_dead \<and> \<not> alive a_dead \<and>
   integrate_arrows (1 / 30) s_fall = Some (s_fall\<lparr> arrows := [a_dead] \<rparr>) \<and>
   update_arrows (1 / 30) s_fall = Some (s_fall\<lparr> arrows := [] \<rparr>) \<and>
   update_arrows (1 / 30) s_fall \<noteq> integrate_arrows (1 / 30) s_fall \<and>
   update_arrows (1 / 30) (update_targets (1 / 30) (s_fall\<lparr> weather := new_WeatherSystem \<rparr>)) =
     Some s_fall_out \<and>
   arrows s_fall_out = [] \<and>
   resolve_arrow_target_collisions s_fall_out = Some s_fall_out \<and>
   update_simulation (1 / 30) r0 s_fall = Some (r0, s_fall_out)"
proof -
  have ne: "update_arrows (1 / 30) s_fall \<noteq> integrate_arrows (1 / 30) s_fall"
  proof
    assume "update_arrows (1 / 30) s_fall = integrate_arrows (1 / 30) s_fall"
    then have "s_fall\<lparr> arrows := [] \<rparr> = s_fall\<lparr> arrows := [a_dead] \<rparr>"
      unfolding arrows_fall integrate_fall by simp
    then have "arrows (s_fall\<lparr> arrows := [] \<rparr>) = arrows (s_fall\<lparr> arrows := [a_dead] \<rparr>)"
      by (rule arg_cong)
    then show False by simp
  qed
  have "update_arrows (1 / 30) (update_targets (1 / 30) (s_fall\<lparr> weather := new_WeatherSystem \<rparr>)) =
     Some s_fall_out"
    unfolding targets_fall by (rule arrows_fall_tick)
  with ne upd_fall a_dead_flags integrate_fall arrows_fall s_fall_out_fields resolve_fall
    tick_fall [of r0]
  show ?thesis by simp
qed

lemma gust_update:
  "map_option (map age \<circ> particles \<circ> snd)
     (WeatherSystem_update (1 / 30) r0 (cycle_type new_WeatherSystem)) = Some [1 / 30, 1 / 30]"
  unfolding r0_def
  by (simp add: ev0 WeatherSystem_update_def ev_pre numeral_2_eq_2 ev_spawn
      map_filter_def age_particle_def)

lemma s_windy_fields:
  "weather s_windy = cycle_type new_WeatherSystem \<and> ready s_windy"
  by (simp add: s_windy_def ready_def cycle_type_index)

text \<open>
  The tick of \<open>s_fly\<close> updates the target, integrates the arrow and lodges it; the
  resolver on \<open>s_two_mid\<close> keeps the alive flags; the tick of \<open>s_windy\<close> spawns two
  particles and ages them by the time step.
\<close>

theorem tick_source_order_witness:
  "update_simulation (1 / 30) r0 s_fly = Some (r0, s_hit) \<and>
   WeatherSystem_update (1 / 30) r0 (weather s_fly) = Some (r0, weather s_hit) \<and>
   targets s_hit = map (Target_update (1 / 30)) (targets s_fly) \<and>
   prune_dead s_hit = s_hit \<and> arrows s_hit = [a_hit] \<and> alive a_hit \<and>
   update_arrows (1 / 30) s_fall = Some (s_fall\<lparr> arrows := [] \<rparr>) \<and>
   resolve_arrow_target_collisions s_two_mid = Some s_two_hit \<and>
   map alive (arrows s_two_hit) = map alive (arrows s_two_mid) \<and>
   update_simulation (1 / 30) r0 s_windy \<noteq> None \<and>
   map_option (map age \<circ> particles \<circ> weather \<circ> snd) (update_simulation (1 / 30) r0 s_windy) =
     Some [1 / 30, 1 / 30]"
proof -
  from tick_source_order [of "1 / 30" r0 s_fly] tick_fly [of r0]
  have 1: "WeatherSystem_update (1 / 30) r0 (weather s_fly) = Some (r0, weather s_hit)"
    and 2: "targets s_hit = map (Target_update (1 / 30)) (targets s_fly)"
    and 3: "prune_dead s_hit = s_hit"
    and 4: "\<forall>a\<in>set (arrows s_hit). alive a"
    by blast+
  have ah: "arrows s_hit = [a_hit]" by (simp add: s_hit_def)
  with 4 have 5: "alive a_hit" by simp
  from tick_source_order [of "1 / 30" r0 s_two_mid] resolve_two
  have 6: "map alive (arrows s_two_hit) = map alive (arrows s_two_mid)" by blast
  from s_windy_fields have "update_simulation (1 / 30) r0 s_windy \<noteq> None"
    by (simp add: update_simulation_total)
  then obtain r1 s1 where us: "update_simulation (1 / 30) r0 s_windy = Some (r1, s1)" by auto
  from tick_source_order [of "1 / 30" r0 s_windy] us
  have "WeatherSystem_update (1 / 30) r0 (weather s_windy) = Some (r1, weather s1)" by blast
  with gust_update s_windy_fields have "map age (particles (weather s1)) = [1 / 30, 1 / 30]"
    by simp
  with us have 7: "update_simulation (1 / 30) r0 s_windy \<noteq> None"
    and 8: "map_option (map age \<circ> particles \<circ> weather \<circ> snd)
      (update_simulation (1 / 30) r0 s_windy) = Some [1 / 30, 1 / 30]" by simp_all
  from tick_fly [of r0] 1 2 3 ah 5 arrows_fall resolve_two 6 7 8 show ?thesis by blast
qed

end
